theory Spec2Isabelle
  imports Complex_Main
begin

section \<open>Python library functions used by the marker\<close>

text \<open>
  The marker (\<^verbatim>\<open>lab_marker/auto/lab2/marker.py\<close>) works on path strings, on the
  file tree below a path, on a wall clock and on child processes. Exceptions are values:
  a function that can raise returns \<open>error + 'a\<close>, with \<open>Inl\<close> the exception that
  propagates to the caller.
\<close>

datatype error =
  FileNotFoundError | NotADirectoryError | KeyError | IndexError | ChildProcessError

text \<open>
  \<^verbatim>\<open>str.startswith\<close>, \<^verbatim>\<open>str.lower\<close> on ASCII letters, \<^verbatim>\<open>str.rfind\<close> for a
  single character (the index of the last occurrence, or \<open>-1\<close>).
\<close>

definition startswith :: "string \<Rightarrow> string \<Rightarrow> bool" where
  "startswith s pre = (take (length pre) s = pre)"

definition lower_char :: "char \<Rightarrow> char" where
  "lower_char c =
     (case map_of (zip ''ABCDEFGHIJKLMNOPQRSTUVWXYZ'' ''abcdefghijklmnopqrstuvwxyz'') c of
        None \<Rightarrow> c
      | Some l \<Rightarrow> l)"

definition lower :: "string \<Rightarrow> string" where
  "lower s = map lower_char s"

fun rfind_from :: "char \<Rightarrow> string \<Rightarrow> int \<Rightarrow> int \<Rightarrow> int" where
  "rfind_from c [] i found = found"
| "rfind_from c (x # xs) i found = rfind_from c xs (i + 1) (if x = c then i else found)"

definition rfind :: "string \<Rightarrow> char \<Rightarrow> int" where
  "rfind p c = rfind_from c p 0 (- 1)"

text \<open>
  \<^verbatim>\<open>os.path.splitext\<close> (posixpath, through \<^verbatim>\<open>genericpath._splitext\<close>):
  \<^verbatim>\<open>
    sepIndex = p.rfind(sep)
    dotIndex = p.rfind(extsep)
    if dotIndex > sepIndex:
        # skip all leading dots
        filenameIndex = sepIndex + 1
        while filenameIndex < dotIndex:
            if p[filenameIndex:filenameIndex+1] != extsep:
                return p[:dotIndex], p[dotIndex:]
            filenameIndex += 1
    return p, p[:0]
  \<close>
\<close>

function splitext_loop :: "string \<Rightarrow> nat \<Rightarrow> nat \<Rightarrow> string \<times> string" where
  "splitext_loop p filenameIndex dotIndex =
     (if filenameIndex < dotIndex then
        (if p ! filenameIndex \<noteq> CHR ''.'' then (take dotIndex p, drop dotIndex p)
         else splitext_loop p (filenameIndex + 1) dotIndex)
      else (p, []))"
  by pat_completeness auto
termination
  by (relation "measure (\<lambda>(p, filenameIndex, dotIndex). dotIndex - filenameIndex)") auto

definition splitext :: "string \<Rightarrow> string \<times> string" where
  "splitext p =
     (let sepIndex = rfind p CHR ''/''; dotIndex = rfind p CHR ''.''
      in if dotIndex > sepIndex then splitext_loop p (nat (sepIndex + 1)) (nat dotIndex)
         else (p, []))"

text \<open>
  \<^verbatim>\<open>os.path.join\<close> (posixpath) for two components: an absolute second component
  replaces the first; otherwise a separator is inserted unless the first is empty or
  already ends with one.
\<close>

definition path_join :: "string \<Rightarrow> string \<Rightarrow> string" where
  "path_join a b =
     (if startswith b ''/'' then b
      else if a = [] \<or> last a = CHR ''/'' then a @ b
      else a @ ''/'' @ b)"

text \<open>
  The file tree below a path: a regular file, a directory with its entries in listing
  order, or nothing (a path that does not exist, or a dangling link). \<^verbatim>\<open>os.listdir\<close>
  gives the entries of a directory in the order of the \<open>Dir\<close> list, raises
  \<^verbatim>\<open>NotADirectoryError\<close> on a regular file and \<^verbatim>\<open>FileNotFoundError\<close> on a missing
  path; \<^verbatim>\<open>os.path.isdir\<close> is true of directories only. A path travels together with
  the tree found at it, and the tree does not change during a run.
\<close>

datatype node = File | Dir "(string \<times> node) list" | Absent

fun listdir :: "node \<Rightarrow> error + (string \<times> node) list" where
  "listdir File = Inl NotADirectoryError"
| "listdir (Dir entries) = Inr entries"
| "listdir Absent = Inl FileNotFoundError"

fun isdir :: "node \<Rightarrow> bool" where
  "isdir File = False"
| "isdir (Dir entries) = True"
| "isdir Absent = False"

definition child :: "(string \<times> node) list \<Rightarrow> string \<Rightarrow> node" where
  "child entries name = (case map_of entries name of None \<Rightarrow> Absent | Some t \<Rightarrow> t)"

text \<open>
  Indexing a list with a Python integer: a negative index counts from the end, an index
  out of range raises \<^verbatim>\<open>IndexError\<close>.
\<close>

definition py_index :: "'a list \<Rightarrow> int \<Rightarrow> error + 'a" where
  "py_index xs i =
     (if 0 \<le> i \<and> i < int (length xs) then Inr (xs ! nat i)
      else if i < 0 \<and> - int (length xs) \<le> i then Inr (xs ! nat (int (length xs) + i))
      else Inl IndexError)"

text \<open>The decimal digits of a number, as an f-string formats it.\<close>

function str_nat :: "nat \<Rightarrow> string" where
  "str_nat n =
     (if n < 10 then [''0123456789'' ! n]
      else str_nat (n div 10) @ [''0123456789'' ! (n mod 10)])"
  by pat_completeness auto
termination
  by (relation "measure id") auto

section \<open>File discovery: \<^verbatim>\<open>find_file\<close>\<close>

record found =
  folder_path :: string
  ext :: string
  language :: string

definition lang_map :: "string \<rightharpoonup> string" where
  "lang_map = [''.py'' \<mapsto> ''Python'', ''.java'' \<mapsto> ''Java'', ''.c'' \<mapsto> ''C'']"

text \<open>
  The first loop of \<^verbatim>\<open>find_file\<close> (lines 30 to 38): it returns from the function at the
  first entry whose name without extension is \<open>file_name\<close> and whose extension is one of
  the three (\<open>Inl\<close> of the loop result), and otherwise ends with the list
  \<open>directories\<close> (\<open>Inr\<close>). An entry whose name without extension is \<open>file_name\<close> takes
  the \<^verbatim>\<open>if\<close> branch, so the \<^verbatim>\<open>else\<close> branch that collects directories never sees it.
\<close>

fun scan_entries ::
  "string \<Rightarrow> string \<Rightarrow> (string \<times> node) list \<Rightarrow> (string \<times> node) list
    \<Rightarrow> error + (found + (string \<times> node) list)" where
  "scan_entries search_folder file_name [] directories = Inr (Inr directories)"
| "scan_entries search_folder file_name ((directory, sub) # rest) directories =
     (case splitext directory of (current_file_name, current_file_ext) \<Rightarrow>
        if current_file_name = file_name then
          (if current_file_ext \<in> set [''.py'', ''.c'', ''.java''] then
             (case lang_map current_file_ext of
                None \<Rightarrow> Inl KeyError
              | Some lang \<Rightarrow>
                  Inr (Inl \<lparr>folder_path = search_folder, ext = current_file_ext,
                            language = lang\<rparr>))
           else scan_entries search_folder file_name rest directories)
        else
          (let temp_path = path_join search_folder directory
           in if isdir sub
              then scan_entries search_folder file_name rest (directories @ [(temp_path, sub)])
              else scan_entries search_folder file_name rest directories))"

lemma scan_entries_dirs:
  "scan_entries sf fn es ds = Inr (Inr ds') \<Longrightarrow> (p, n) \<in> set ds' \<Longrightarrow>
     (p, n) \<in> set ds \<or> (\<exists>a. (a, n) \<in> set es)"
proof (induction es arbitrary: ds)
  case Nil
  then show ?case by simp
next
  case (Cons e es)
  obtain d sub where e: "e = (d, sub)" by (cases e)
  obtain stem sfx where sp: "splitext d = (stem, sfx)" by (cases "splitext d")
  show ?case
  proof (cases "stem = fn")
    case True
    with Cons.prems e sp have "scan_entries sf fn es ds = Inr (Inr ds')"
      by (auto split: if_splits option.splits)
    from Cons.IH[OF this Cons.prems(2)] show ?thesis by auto
  next
    case False
    show ?thesis
    proof (cases "isdir sub")
      case True
      with Cons.prems e sp False
      have "scan_entries sf fn es (ds @ [(path_join sf d, sub)]) = Inr (Inr ds')"
        by (simp add: Let_def)
      from Cons.IH[OF this Cons.prems(2)] e show ?thesis by auto
    next
      case nd: False
      with Cons.prems e sp False have "scan_entries sf fn es ds = Inr (Inr ds')"
        by (simp add: Let_def)
      from Cons.IH[OF this Cons.prems(2)] show ?thesis by auto
    qed
  qed
qed

lemma size_entry: "(a, n) \<in> set es \<Longrightarrow> size n < size (Dir es)"
  by (induction es) auto

text \<open>
  \<^verbatim>\<open>find_file\<close>: after the scan, \<^verbatim>\<open>for directory in directories: return find_file(...)\<close>
  returns in its first iteration, so only the head of \<open>directories\<close> is searched;
  with no directory collected the result is \<^verbatim>\<open>None\<close>.
\<close>

function find_file :: "string \<Rightarrow> node \<Rightarrow> string \<Rightarrow> error + found option" where
  "find_file search_folder tree file_name =
     (case listdir tree of
        Inl e \<Rightarrow> Inl e
      | Inr current_files \<Rightarrow>
          (case scan_entries search_folder file_name current_files [] of
             Inl e \<Rightarrow> Inl e
           | Inr (Inl hit) \<Rightarrow> Inr (Some hit)
           | Inr (Inr []) \<Rightarrow> Inr None
           | Inr (Inr ((directory, sub) # later)) \<Rightarrow> find_file directory sub file_name))"
  by pat_completeness auto
termination
proof (relation "measure (\<lambda>(search_folder, tree, file_name). size tree)", goal_cases)
  case 1
  then show ?case by simp
next
  case (2 search_folder tree file_name current_files x x2 x21 x22 directory sub)
  from 2 have "tree = Dir current_files" by (cases tree) auto
  moreover from 2 have "\<exists>a. (a, sub) \<in> set current_files"
    using scan_entries_dirs[of search_folder file_name current_files "[]" x2 directory sub]
    by auto
  ultimately show ?case by (auto dest: size_entry)
qed


section \<open>The world the marker runs in\<close>

text \<open>
  Effects are recorded in a \<open>world\<close>: the wall clock (\<^verbatim>\<open>time.time()\<close> reads \<open>now\<close>),
  the time-stamped list of effects performed so far, and the number of child processes
  launched. Terminal output (\<^verbatim>\<open>print\<close>, \<^verbatim>\<open>tqdm\<close>) is not recorded.
\<close>

datatype event =
    OpenStream string "bool option"
  | WriteMessage string string "bool option"
  | CloseStream string
  | System string
  | Spawn nat string string
  | GetOutput nat real
  | KillProcess nat

record world =
  now :: real
  log :: "(real \<times> event) list"
  spawned :: nat

definition emit :: "event \<Rightarrow> world \<Rightarrow> world" where
  "emit e w = w\<lparr>log := log w @ [(now w, e)]\<rparr>"

definition tick :: "real \<Rightarrow> world \<Rightarrow> world" where
  "tick d w = w\<lparr>now := now w + d\<rparr>"

text \<open>
  What the environment decides: for the \<open>k\<close>-th child process launched, how long the
  build step before it blocks (\<^verbatim>\<open>os.system\<close> waits for \<^verbatim>\<open>javac\<close>), how long the launch
  takes, and what each call of \<^verbatim>\<open>get_output\<close> on its handle does and how long it blocks.
\<close>

datatype poll_result = Returns bool | Raises

record process =
  build_dur :: real
  spawn_dur :: real
  poll :: "nat \<Rightarrow> poll_result"
  poll_dur :: "nat \<Rightarrow> real"

type_synonym env = "nat \<Rightarrow> process"

definition os_system :: "env \<Rightarrow> string \<Rightarrow> world \<Rightarrow> world" where
  "os_system env command w = tick (build_dur (env (spawned w))) (emit (System command) w)"

text \<open>
  Modelled from the spec: \<^verbatim>\<open>ExecStatus\<close> of \<^verbatim>\<open>config.py\<close>, which is not among the
  sources. The spec (section 3) gives five outcomes, \<open>OK\<close> with code 0 and every other
  one with a code of its own; \<^verbatim>\<open>status.value != 0\<close> is therefore \<open>status \<noteq> OK\<close>. The
  description strings of \<^verbatim>\<open>ExecStatus.get_description\<close> are a parameter of the batch
  driver.
\<close>

datatype ExecStatus = OK | FILE_NOT_FOUND | EXECUTION_FAILED | UNEXPECTED_TERMINATION | TIMEOUT

definition value_nonzero :: "ExecStatus \<Rightarrow> bool" where
  "value_nonzero status = (status \<noteq> OK)"

text \<open>
  Modelled from the spec: \<^verbatim>\<open>StreamHandler\<close> of \<^verbatim>\<open>lab_marker/auto/StreamHandler.py\<close>,
  which is not among the sources. The spec (section 6) gives it a write-message operation
  with an option to suppress the console echo and a close operation. A stream is
  identified by its file name; each operation is recorded with the keyword argument as
  the caller passed it (\<open>None\<close> when left to its default).
\<close>

definition StreamHandler :: "string \<Rightarrow> bool option \<Rightarrow> world \<Rightarrow> string \<times> world" where
  "StreamHandler file_name terminal_out w = (file_name, emit (OpenStream file_name terminal_out) w)"

definition write_message :: "string \<Rightarrow> string \<Rightarrow> bool option \<Rightarrow> world \<Rightarrow> world" where
  "write_message out_stream message no_print w = emit (WriteMessage out_stream message no_print) w"

definition close :: "string \<Rightarrow> world \<Rightarrow> world" where
  "close out_stream w = emit (CloseStream out_stream) w"

text \<open>
  Modelled from the spec: \<^verbatim>\<open>ProcessHandler\<close> of \<^verbatim>\<open>lab_marker/auto/ProcessHandler.py\<close>,
  which is not among the sources. The spec (section 4.1) gives it the launch, a poll that
  blocks for at most the timeout and either returns normally or signals that the child
  has ended (\<^verbatim>\<open>ChildProcessError\<close>, the exception the marker catches), a liveness flag
  that is valid after each poll, and a kill that always succeeds. Whether a given poll
  returns or raises, and the flag it leaves, are the environment's choice
  (\<open>poll\<close>); the lines the child prints are not recorded.
\<close>

record client =
  pid :: nat
  polls :: nat
  is_alive :: bool

definition ProcessHandler :: "env \<Rightarrow> string \<Rightarrow> string \<Rightarrow> string \<Rightarrow> world \<Rightarrow> client \<times> world" where
  "ProcessHandler env command out_stream cwd w =
     (let k = spawned w
      in (\<lparr>pid = k, polls = 0, is_alive = True\<rparr>,
          tick (spawn_dur (env k)) (emit (Spawn k command cwd) w)\<lparr>spawned := k + 1\<rparr>))"

definition get_output :: "env \<Rightarrow> client \<Rightarrow> real \<Rightarrow> world \<Rightarrow> (error + client) \<times> world" where
  "get_output env c timeout w =
     (let p = env (pid c); n = polls c;
          w' = tick (poll_dur p n) (emit (GetOutput (pid c) timeout) w)
      in case poll p n of
           Returns alive \<Rightarrow> (Inr (c\<lparr>polls := n + 1, is_alive := alive\<rparr>), w')
         | Raises \<Rightarrow> (Inl ChildProcessError, w'))"

definition kill_process :: "client \<Rightarrow> world \<Rightarrow> world" where
  "kill_process c w = emit (KillProcess (pid c)) w"

section \<open>The execution classifier: \<^verbatim>\<open>run_lab_2_code\<close>\<close>

definition process_commands :: "nat \<Rightarrow> string \<rightharpoonup> string" where
  "process_commands port_num =
     [''Python'' \<mapsto> ''python PingClient.py localhost '' @ str_nat port_num,
      ''C'' \<mapsto> ''./PingClient localhost '' @ str_nat port_num,
      ''Java'' \<mapsto> ''java PingClient localhost '' @ str_nat port_num]"

text \<open>
  The polling loop (lines 83 to 92). \<open>Inl ChildProcessError\<close> is the exception leaving the
  loop body towards the handler of line 94; the counter is incremented before it is
  compared, so the loop ends by itself once the counter has passed 150.
\<close>

function poll_loop :: "env \<Rightarrow> client \<Rightarrow> nat \<Rightarrow> world \<Rightarrow> (error + ExecStatus) \<times> world" where
  "poll_loop env c count w =
     (case get_output env c (1 / 10) w of
        (Inl e, w') \<Rightarrow> (Inl e, w')
      | (Inr c', w') \<Rightarrow>
          (if count + 1 > 150 then (Inr TIMEOUT, kill_process c' w')
           else poll_loop env c' (count + 1) w'))"
  by pat_completeness auto
termination
  by (relation "measure (\<lambda>(env, c, count, w). 151 - count)") auto

declare poll_loop.simps [simp del]

text \<open>
  Lines 77 to 99: the first poll and the liveness check are outside the \<^verbatim>\<open>try\<close>; the
  handler catches \<^verbatim>\<open>ChildProcessError\<close> only and compares the clock with
  \<open>exec_start_time\<close>.
\<close>

definition watch_client ::
  "env \<Rightarrow> client \<Rightarrow> real \<Rightarrow> world \<Rightarrow> (error + ExecStatus) \<times> world" where
  "watch_client env c exec_start_time w =
     (case get_output env c (1 / 10) w of
        (Inl e, w1) \<Rightarrow> (Inl e, w1)
      | (Inr c1, w1) \<Rightarrow>
          if \<not> is_alive c1 then (Inr EXECUTION_FAILED, w1)
          else
            (case poll_loop env c1 0 w1 of
               (Inl ChildProcessError, w2) \<Rightarrow>
                 (if now w2 - exec_start_time < 2 then (Inr UNEXPECTED_TERMINATION, w2)
                  else (Inr OK, w2))
             | (Inl e, w2) \<Rightarrow> (Inl e, w2)
             | (Inr status, w2) \<Rightarrow> (Inr status, w2)))"

text \<open>
  Lines 57 to 75: the clock is read first, then the language decides. Python is launched
  at once; Java is compiled by a blocking \<^verbatim>\<open>os.system\<close> call and then launched; any
  other language gets the manual-review message and \<open>OK\<close>. \<open>launch\<close> is what the
  Python and the Java branch share: the lookup of the command, the construction of the
  handle and the rest of the function (\<open>watch_client\<close>).
\<close>

definition launch ::
  "env \<Rightarrow> nat \<Rightarrow> string \<Rightarrow> string \<Rightarrow> string \<Rightarrow> real \<Rightarrow> world
    \<Rightarrow> (error + ExecStatus) \<times> world" where
  "launch env port_num key out_stream code_file_dir exec_start_time w =
     (case process_commands port_num key of
        None \<Rightarrow> (Inl KeyError, w)
      | Some command \<Rightarrow>
          (case ProcessHandler env command out_stream code_file_dir w of
             (c, w1) \<Rightarrow> watch_client env c exec_start_time w1))"

definition run_lab_2_code ::
  "env \<Rightarrow> string \<Rightarrow> string \<Rightarrow> string \<Rightarrow> nat \<Rightarrow> world \<Rightarrow> (error + ExecStatus) \<times> world" where
  "run_lab_2_code env code_file_dir code_lang out_stream port_num w =
     (let exec_start_time = now w
      in if code_lang = ''Python'' then
           launch env port_num ''Python'' out_stream code_file_dir exec_start_time w
         else if code_lang = ''Java'' then
           launch env port_num ''Java'' out_stream code_file_dir exec_start_time
             (os_system env (''javac '' @ path_join code_file_dir ''PingClient.java'') w)
         else
           (Inr OK,
            write_message out_stream ''Code implemented in C, Please check manually!'' None w))"

definition run_individual_submission ::
  "env \<Rightarrow> string \<Rightarrow> node \<Rightarrow> string \<Rightarrow> world \<Rightarrow> (error + ExecStatus) \<times> world" where
  "run_individual_submission env submission_path tree out_stream w =
     (case find_file submission_path tree ''PingClient'' of
        Inl e \<Rightarrow> (Inl e, w)
      | Inr None \<Rightarrow> (Inr FILE_NOT_FOUND, write_message out_stream ''File not found'' (Some True) w)
      | Inr (Some code_file) \<Rightarrow>
          run_lab_2_code env (folder_path code_file) (language code_file) out_stream 12000 w)"

section \<open>The batch driver and the retry loop\<close>

text \<open>
  The operator is part of the environment: the lines typed at \<^verbatim>\<open>input\<close> prompts and
  the indices chosen in selection menus are two lists, consumed from the front. An
  interactive loop that needs an input when none is left is \<open>Blocked\<close>; it has \<open>Ended\<close>
  when it returned, and \<open>Raised\<close> when an exception left it.
\<close>

text \<open>
  Modelled from the spec: \<^verbatim>\<open>print_and_get_selection\<close> of \<^verbatim>\<open>lab_marker/utils.py\<close>,
  which is not among the sources. The spec (section 4.3) has the operator pick one of the
  listed submissions; the call yields the next index of the operator's choices, which
  the marker then uses to index the list.
\<close>

datatype outcome = Ended | Blocked | Raised error

text \<open>Assignment to a key of a Python dictionary, which keeps insertion order.\<close>

definition dict_set :: "(string \<times> 'v) list \<Rightarrow> string \<Rightarrow> 'v \<Rightarrow> (string \<times> 'v) list" where
  "dict_set d k v =
     (case map_of d k of
        None \<Rightarrow> d @ [(k, v)]
      | Some old \<Rightarrow> map (\<lambda>(k', v'). if k' = k then (k', v) else (k', v')) d)"

definition output_file :: "string \<Rightarrow> string \<Rightarrow> string" where
  "output_file output_destination submission =
     output_destination @ ''/'' @ submission @ ''_output.txt''"

text \<open>
  The loop of \<^verbatim>\<open>mark_submissions_auto\<close> (lines 199 to 208) over the listing of the class
  directory, with the dictionary \<open>failed_processes\<close> as accumulator. There is no handler
  around the classification: an exception ends the loop and the function.
\<close>

fun auto_loop ::
  "env \<Rightarrow> (ExecStatus \<Rightarrow> string) \<Rightarrow> string \<Rightarrow> string \<Rightarrow> (string \<times> node) list
    \<Rightarrow> (string \<times> string) list \<Rightarrow> world \<Rightarrow> (error + (string \<times> string) list) \<times> world" where
  "auto_loop env get_description class_path output_destination [] failed_processes w =
     (Inr failed_processes, w)"
| "auto_loop env get_description class_path output_destination ((submission, tree) # rest)
     failed_processes w =
     (if \<not> startswith submission ''.'' then
        (let submission_path = path_join class_path submission
         in case StreamHandler (output_file output_destination submission) None w of
              (code_output_stream, w1) \<Rightarrow>
                (case run_individual_submission env submission_path tree code_output_stream w1 of
                   (Inl e, w2) \<Rightarrow> (Inl e, w2)
                 | (Inr status, w2) \<Rightarrow>
                     auto_loop env get_description class_path output_destination rest
                       (if value_nonzero status
                        then dict_set failed_processes submission (get_description status)
                        else failed_processes)
                       (close code_output_stream w2)))
      else auto_loop env get_description class_path output_destination rest failed_processes w)"

text \<open>
  \<^verbatim>\<open>retry_marking\<close> (lines 160 to 185). The loop works on \<open>retry_submissions\<close>, the list
  of the keys of \<open>retry_dict\<close>; the dictionary itself is only read. Besides the list and
  the world, the model returns the iterations performed, each with the submission
  selected, its status and the operator's decision when one was asked for.
\<close>

type_synonym retry_record = "string \<times> ExecStatus \<times> string option"

fun retry_loop ::
  "env \<Rightarrow> string \<Rightarrow> (string \<times> node) list \<Rightarrow> string \<Rightarrow> int list \<Rightarrow> string list
    \<Rightarrow> string list \<Rightarrow> retry_record list \<Rightarrow> world
    \<Rightarrow> outcome \<times> string list \<times> retry_record list \<times> world" where
  "retry_loop env submission_path entries output_destination [] typed retry_submissions
     history w =
     (if length retry_submissions > 0 then (Blocked, retry_submissions, history, w)
      else (Ended, retry_submissions, history, w))"
| "retry_loop env submission_path entries output_destination (selected_submission # picks) typed
     retry_submissions history w =
     (if length retry_submissions > 0 then
        (case py_index retry_submissions selected_submission of
           Inl e \<Rightarrow> (Raised e, retry_submissions, history, w)
         | Inr submission \<Rightarrow>
             (case StreamHandler (output_file output_destination submission) (Some True) w of
                (code_output_stream, w1) \<Rightarrow>
                  (case run_individual_submission env (path_join submission_path submission)
                          (child entries submission) code_output_stream w1 of
                     (Inl e, w2) \<Rightarrow> (Raised e, retry_submissions, history, w2)
                   | (Inr status, w2) \<Rightarrow>
                       (if \<not> value_nonzero status then
                          retry_loop env submission_path entries output_destination picks typed
                            (remove1 submission retry_submissions)
                            (history @ [(submission, status, None)])
                            (close code_output_stream w2)
                        else
                          (case typed of
                             [] \<Rightarrow>
                               (Blocked, retry_submissions,
                                history @ [(submission, status, None)],
                                close code_output_stream w2)
                           | line # typed' \<Rightarrow>
                               retry_loop env submission_path entries output_destination picks
                                 typed'
                                 (if lower line = ''r'' then remove1 submission retry_submissions
                                  else retry_submissions)
                                 (history @ [(submission, status, Some (lower line))])
                                 (close code_output_stream w2))))))
      else (Ended, retry_submissions, history, w))"

definition retry_marking ::
  "env \<Rightarrow> string \<Rightarrow> (string \<times> node) list \<Rightarrow> (string \<times> string) list \<Rightarrow> string
    \<Rightarrow> int list \<Rightarrow> string list \<Rightarrow> world
    \<Rightarrow> outcome \<times> string list \<times> retry_record list \<times> world" where
  "retry_marking env submission_path entries retry_dict output_destination picks typed w =
     retry_loop env submission_path entries output_destination picks typed
       (map fst retry_dict) [] w"

text \<open>
  The prompt at the end of \<^verbatim>\<open>mark_submissions_auto\<close> (lines 218 to 224): \<open>n\<close> ends it,
  \<open>y\<close> runs the retry loop once, any other line asks again.
\<close>

fun ask_retry ::
  "env \<Rightarrow> string \<Rightarrow> (string \<times> node) list \<Rightarrow> (string \<times> string) list \<Rightarrow> string
    \<Rightarrow> int list \<Rightarrow> string list \<Rightarrow> world \<Rightarrow> outcome \<times> world" where
  "ask_retry env class_path entries failed_processes output_destination picks [] w =
     (Blocked, w)"
| "ask_retry env class_path entries failed_processes output_destination picks
     (decision # typed) w =
     (if decision = ''n'' then (Ended, w)
      else if decision = ''y'' then
        (case retry_marking env class_path entries failed_processes output_destination
                picks typed w of
           (res, retry_submissions, history, w') \<Rightarrow> (res, w'))
      else ask_retry env class_path entries failed_processes output_destination picks typed w)"

definition mark_submissions_auto ::
  "env \<Rightarrow> (ExecStatus \<Rightarrow> string) \<Rightarrow> string \<Rightarrow> node \<Rightarrow> string \<Rightarrow> int list \<Rightarrow> string list
    \<Rightarrow> world \<Rightarrow> outcome \<times> (string \<times> string) list \<times> world" where
  "mark_submissions_auto env get_description class_path class_tree output_destination
     picks typed w =
     (case listdir class_tree of
        Inl e \<Rightarrow> (Raised e, [], w)
      | Inr class_submissions \<Rightarrow>
          (case auto_loop env get_description class_path output_destination
                  class_submissions [] w of
             (Inl e, w1) \<Rightarrow> (Raised e, [], w1)
           | (Inr failed_processes, w1) \<Rightarrow>
               (case ask_retry env class_path class_submissions failed_processes
                       output_destination picks typed w1 of
                  (res, w2) \<Rightarrow> (res, failed_processes, w2))))"

text \<open>
  \<^verbatim>\<open>mark_submissions_manually\<close> (lines 132 to 148): the loop has no exit of its own, so
  it is blocked once the operator's choices are used up, unless an exception left it
  before.
\<close>

fun manual_loop ::
  "env \<Rightarrow> string \<Rightarrow> string \<Rightarrow> (string \<times> node) list \<Rightarrow> int list \<Rightarrow> world
    \<Rightarrow> outcome \<times> world" where
  "manual_loop env class_path output_destination class_submissions [] w = (Blocked, w)"
| "manual_loop env class_path output_destination class_submissions (lab_num # picks) w =
     (case py_index class_submissions lab_num of
        Inl e \<Rightarrow> (Raised e, w)
      | Inr (submission, tree) \<Rightarrow>
          (let submission_path = path_join class_path submission
           in case StreamHandler (output_file output_destination submission) (Some True) w of
                (code_output_stream, w1) \<Rightarrow>
                  (case run_individual_submission env submission_path tree
                          code_output_stream w1 of
                     (Inl e, w2) \<Rightarrow> (Raised e, w2)
                   | (Inr status, w2) \<Rightarrow>
                       manual_loop env class_path output_destination class_submissions picks
                         (close code_output_stream w2))))"

definition mark_submissions_manually ::
  "env \<Rightarrow> string \<Rightarrow> node \<Rightarrow> string \<Rightarrow> int list \<Rightarrow> world \<Rightarrow> outcome \<times> world" where
  "mark_submissions_manually env class_path class_tree output_destination picks w =
     (case listdir class_tree of
        Inl e \<Rightarrow> (Raised e, w)
      | Inr class_submissions \<Rightarrow>
          manual_loop env class_path output_destination class_submissions picks w)"

section \<open>Observations and sample environments\<close>

text \<open>The effects performed so far, without their time stamps.\<close>

definition events :: "world \<Rightarrow> event list" where
  "events w = map snd (log w)"

text \<open>
  A fresh world, and a child that stays alive and never signals its end, each poll
  blocking for the full timeout.
\<close>

definition world0 :: world where
  "world0 = \<lparr>now = 0, log = [], spawned = 0\<rparr>"

definition steady :: process where
  "steady = \<lparr>build_dur = 0, spawn_dur = 0, poll = (\<lambda>n. Returns True),
             poll_dur = (\<lambda>n. 1 / 10)\<rparr>"

text \<open>A child that is found dead at the first poll, and a sample description table.\<close>

definition stillborn :: process where
  "stillborn = \<lparr>build_dur = 0, spawn_dur = 0, poll = (\<lambda>n. Returns False),
                poll_dur = (\<lambda>n. 0)\<rparr>"

definition describe :: "ExecStatus \<Rightarrow> string" where
  "describe status =
     (case status of
        OK \<Rightarrow> ''ok''
      | FILE_NOT_FOUND \<Rightarrow> ''file not found''
      | EXECUTION_FAILED \<Rightarrow> ''execution failed''
      | UNEXPECTED_TERMINATION \<Rightarrow> ''unexpected termination''
      | TIMEOUT \<Rightarrow> ''timeout'')"

text \<open>
  A child whose handle returns alive from the first \<open>m\<close> polls and signals its end at every
  later one, and one that does so after a build step of three time units.
\<close>

definition exits_at :: "nat \<Rightarrow> process" where
  "exits_at m = \<lparr>build_dur = 0, spawn_dur = 0,
                 poll = (\<lambda>n. if n < m then Returns True else Raises),
                 poll_dur = (\<lambda>n. 1 / 10)\<rparr>"

definition slow_build :: process where
  "slow_build = \<lparr>build_dur = 3, spawn_dur = 0,
                 poll = (\<lambda>n. if n < 1 then Returns True else Raises),
                 poll_dur = (\<lambda>n. 1 / 10)\<rparr>"

text \<open>
  The effects of lines 65 to 70 for a Python or Java submission: the build step for Java,
  then the launch of the \<open>k\<close>-th process.
\<close>

definition launch_events :: "nat \<Rightarrow> string \<Rightarrow> string \<Rightarrow> nat \<Rightarrow> event list" where
  "launch_events k code_lang code_file_dir port_num =
     (if code_lang = ''Java''
      then [System (''javac '' @ path_join code_file_dir ''PingClient.java'')] else [])
     @ [Spawn k
          ((if code_lang = ''Java'' then ''java PingClient localhost ''
            else ''python PingClient.py localhost '') @ str_nat port_num)
          code_file_dir]"

text \<open>The times at which the \<open>k\<close>-th process was launched, read off the log.\<close>

fun spawn_times :: "nat \<Rightarrow> (real \<times> event) list \<Rightarrow> real list" where
  "spawn_times k [] = []"
| "spawn_times k ((t, e) # rest) =
     (case e of
        Spawn k' command cwd \<Rightarrow> if k' = k then t # spawn_times k rest else spawn_times k rest
      | _ \<Rightarrow> spawn_times k rest)"

text \<open>
  Opening and closing an output stream are the stream events. \<open>sessions\<close> reads a list
  of effects as a sequence of sessions, each one the opening of a stream, effects that are
  no stream events, and the close of that stream. It gives the files of the closed
  sessions in order, and the stream that is still open at the end if there is one. It
  gives \<open>None\<close> when an effect lies outside a session, when a stream is opened while
  another is open, or when a close names another stream than the open one.
  \<open>quiet w w'\<close> says that \<open>w'\<close> continues \<open>w\<close> without a stream event.
\<close>

fun is_stream_event :: "event \<Rightarrow> bool" where
  "is_stream_event (OpenStream file_name terminal_out) = True"
| "is_stream_event (CloseStream file_name) = True"
| "is_stream_event e = False"

fun sessions :: "string option \<Rightarrow> event list \<Rightarrow> (string list \<times> string option) option" where
  "sessions cur [] = Some ([], cur)"
| "sessions None (OpenStream f terminal_out # es) = sessions (Some f) es"
| "sessions (Some g) (OpenStream f terminal_out # es) = None"
| "sessions cur (CloseStream f # es) =
     (if cur = Some f then map_option (\<lambda>(fs, c). (f # fs, c)) (sessions None es) else None)"
| "sessions None (e # es) = None"
| "sessions (Some g) (e # es) = sessions (Some g) es"

definition quiet :: "world \<Rightarrow> world \<Rightarrow> bool" where
  "quiet w w' = (\<exists>mid. events w' = events w @ mid \<and> filter is_stream_event mid = [])"


text \<open>
  Read off the iterations of the retry loop: the status of the most recent classification
  of a submission, whether the operator chose to remove it, and whether it is still
  pending (its most recent classification is not \<open>OK\<close> and the operator did not remove
  it).
\<close>

definition last_status :: "retry_record list \<Rightarrow> string \<Rightarrow> ExecStatus option" where
  "last_status history submission =
     (case [r \<leftarrow> rev history. fst r = submission] of
        [] \<Rightarrow> None
      | r # earlier \<Rightarrow> Some (fst (snd r)))"

definition operator_removed :: "retry_record list \<Rightarrow> string \<Rightarrow> bool" where
  "operator_removed history submission =
     list_ex (\<lambda>r. fst r = submission \<and> snd (snd r) = Some ''r'') history"

definition pending :: "retry_record list \<Rightarrow> string \<Rightarrow> bool" where
  "pending history submission =
     (last_status history submission \<noteq> Some OK \<and> \<not> operator_removed history submission)"


text \<open>Sample data: the world after one submission without a candidate file, a class
  directory for the retry loop.\<close>

definition after_z1 :: "bool option \<Rightarrow> world" where
  "after_z1 terminal_out =
     \<lparr>now = 0,
      log = [(0, OpenStream ''out/z1_output.txt'' terminal_out),
             (0, WriteMessage ''out/z1_output.txt'' ''File not found'' (Some True)),
             (0, CloseStream ''out/z1_output.txt'')],
      spawned = 0\<rparr>"


definition retry_sample :: "(string \<times> node) list" where
  "retry_sample =
     [(''z1'', Dir [(''PingClient.c'', File)]), (''z2'', Dir []), (''z3'', Dir [])]"


declare find_file.simps [simp del]
declare splitext_loop.simps [simp del]
declare str_nat.simps [simp del]

section \<open>Basic facts\<close>

lemma events_emit: "events (emit e w) = events w @ [e]"
  by (simp add: events_def emit_def)

lemma events_tick: "events (tick d w) = events w"
  by (simp add: events_def tick_def)

lemma events_spawned_update: "events (w\<lparr>spawned := k\<rparr>) = events w"
  by (simp add: events_def)

lemma spawned_emit: "spawned (emit e w) = spawned w"
  by (simp add: emit_def)

lemma spawned_tick: "spawned (tick d w) = spawned w"
  by (simp add: tick_def)

lemma now_emit: "now (emit e w) = now w"
  by (simp add: emit_def)

lemma now_tick: "now (tick d w) = now w + d"
  by (simp add: tick_def)

lemma now_spawned_update: "now (w\<lparr>spawned := k\<rparr>) = now w"
  by simp

lemmas world_simps =
  events_emit events_tick events_spawned_update spawned_emit spawned_tick now_emit now_tick
  now_spawned_update

lemma splitext_PingClient_c: "splitext ''PingClient.c'' = (''PingClient'', ''.c'')"
  by (simp add: splitext_def rfind_def splitext_loop.simps)

lemma splitext_samples:
  "splitext ''PingClient'' = (''PingClient'', [])"
  "splitext ''PingClient.py'' = (''PingClient'', ''.py'')"
  "splitext ''PingClient.java'' = (''PingClient'', ''.java'')"
  "splitext ''a'' = (''a'', [])"
  "splitext ''b'' = (''b'', [])"
  "splitext ''notes.txt'' = (''notes'', ''.txt'')"
  by (simp_all add: splitext_def rfind_def splitext_loop.simps)

lemma str_nat_12000: "str_nat 12000 = ''12000''"
  by (simp add: str_nat.simps)

section \<open>File discovery\<close>

lemma scan_entries_no_hit:
  assumes "\<forall>(d, sub) \<in> set es.
             \<not> (fst (splitext d) = fn \<and> snd (splitext d) \<in> set [''.py'', ''.c'', ''.java''])"
  shows "scan_entries sf fn es ds =
     Inr (Inr (ds @ [(path_join sf d, sub).
                       (d, sub) \<leftarrow> es, fst (splitext d) \<noteq> fn \<and> isdir sub]))"
  using assms
proof (induction es arbitrary: ds)
  case Nil
  then show ?case by simp
next
  case (Cons e es)
  obtain d sub where e: "e = (d, sub)" by (cases e)
  obtain stem sfx where sp: "splitext d = (stem, sfx)" by (cases "splitext d")
  from Cons.prems have rest: "\<forall>(d, sub) \<in> set es.
      \<not> (fst (splitext d) = fn \<and> snd (splitext d) \<in> set [''.py'', ''.c'', ''.java''])"
    by simp
  from Cons.prems e sp have here: "\<not> (stem = fn \<and> sfx \<in> set [''.py'', ''.c'', ''.java''])"
    by simp
  show ?case
    using here Cons.IH[OF rest] by (simp add: e sp Let_def)
qed

lemma scan_entries_skip:
  assumes "fst (splitext d) = fn" "snd (splitext d) \<notin> set [''.py'', ''.c'', ''.java'']"
  shows "scan_entries sf fn (pre @ (d, sub) # post) ds = scan_entries sf fn (pre @ post) ds"
proof (induction pre arbitrary: ds)
  case Nil
  from assms show ?case by (cases "splitext d") simp
next
  case (Cons e pre)
  obtain d' sub' where e: "e = (d', sub')" by (cases e)
  show ?case by (simp add: e Cons.IH Let_def split: prod.splits option.splits)
qed

text \<open>
  C6 (amended). When no direct entry of the search folder is a candidate (a name whose part
  before the extension is the target and whose extension is \<open>.py\<close>, \<open>.c\<close> or
  \<open>.java\<close>), \<^verbatim>\<open>find_file\<close> looks at the subdirectories it collected: the entries that
  are directories and whose name without extension differs from the target, in listing
  order. With none it returns \<^verbatim>\<open>None\<close>; otherwise it returns whatever the search of the
  first of them returns, \<^verbatim>\<open>None\<close> included, and the later ones are never searched.
\<close>

theorem find_file_first_directory_only:
  assumes "\<forall>(d, sub) \<in> set entries.
             \<not> (fst (splitext d) = file_name
                \<and> snd (splitext d) \<in> set [''.py'', ''.c'', ''.java''])"
  shows "find_file search_folder (Dir entries) file_name =
           (case [(path_join search_folder d, sub).
                    (d, sub) \<leftarrow> entries, fst (splitext d) \<noteq> file_name \<and> isdir sub] of
              [] \<Rightarrow> Inr None
            | (directory, sub) # later \<Rightarrow> find_file directory sub file_name)"
  by (subst find_file.simps) (simp add: scan_entries_no_hit[OF assms] split: list.splits)

theorem find_file_first_directory_only_witness:
  "list_all (\<lambda>(d, sub). \<not> (fst (splitext d) = ''PingClient''
                          \<and> snd (splitext d) \<in> set [''.py'', ''.c'', ''.java'']))
     [(''a'', Dir [(''notes.txt'', File)]), (''b'', Dir [(''PingClient.py'', File)])]
   \<and> find_file ''z1''
        (Dir [(''a'', Dir [(''notes.txt'', File)]), (''b'', Dir [(''PingClient.py'', File)])])
        ''PingClient'' = Inr None"
  using find_file_first_directory_only[of
      "[(''a'', Dir [(''notes.txt'', File)]), (''b'', Dir [(''PingClient.py'', File)])]"
      "''PingClient''" "''z1''"]
  by (simp add: splitext_samples find_file.simps path_join_def startswith_def)

text \<open>
  C6 as stated, with the first subdirectory of the listing, fails: a subdirectory called
  like the target is not collected, so the search goes into a later sibling. Here the
  first subdirectory holds nothing, and the file is found in the second.
\<close>

theorem later_sibling_searched_counterexample:
  "find_file ''z1'' (Dir [(''PingClient'', Dir []), (''b'', Dir [(''PingClient.py'', File)])])
     ''PingClient'' =
     Inr (Some \<lparr>folder_path = ''z1/b'', ext = ''.py'', language = ''Python''\<rparr>)
   \<and> find_file ''z1/PingClient'' (Dir []) ''PingClient'' = Inr None
   \<and> isdir (Dir [])
   \<and> list_all (\<lambda>(d, sub). \<not> (fst (splitext d) = ''PingClient''
                            \<and> snd (splitext d) \<in> set [''.py'', ''.c'', ''.java'']))
       [(''PingClient'', Dir []), (''b'', Dir [(''PingClient.py'', File)])]"
  by (simp add: find_file.simps splitext_samples path_join_def startswith_def lang_map_def)

text \<open>
  C10. An entry whose name without extension is the target but whose extension is none of
  \<open>.py\<close>, \<open>.c\<close>, \<open>.java\<close> (a directory called \<open>PingClient\<close>, say) is passed over by
  the scan: it is not returned and not added to \<open>directories\<close>. The search therefore
  gives the same result as in a folder without that entry, so nothing below it is ever
  found.
\<close>

theorem find_file_ignores_same_stem:
  assumes "fst (splitext d) = file_name"
    and "snd (splitext d) \<notin> set [''.py'', ''.c'', ''.java'']"
  shows "scan_entries search_folder file_name ((d, sub) # rest) directories =
           scan_entries search_folder file_name rest directories
         \<and> find_file search_folder (Dir (pre @ (d, sub) # post)) file_name =
           find_file search_folder (Dir (pre @ post)) file_name"
  using scan_entries_skip[OF assms, of search_folder "[]" sub rest directories]
    scan_entries_skip[OF assms, of search_folder pre sub post "[]"]
  by (simp add: find_file.simps)

theorem find_file_ignores_same_stem_witness:
  "fst (splitext ''PingClient'') = ''PingClient''
   \<and> snd (splitext ''PingClient'') \<notin> set [''.py'', ''.c'', ''.java'']
   \<and> find_file ''z1'' (Dir [(''PingClient'', Dir [(''PingClient.py'', File)])]) ''PingClient'' =
       Inr None"
  using find_file_ignores_same_stem[of "''PingClient''" "''PingClient''" "''z1''"
      "Dir [(''PingClient.py'', File)]" "[]" "[]" "[]" "[]"]
  by (simp add: splitext_samples find_file.simps)

section \<open>The classifier\<close>

text \<open>
  C8. A submission whose detected language is C is classified \<open>OK\<close> at once: the only
  effect of the classification is the message
  "Code implemented in C, Please check manually!" written to the output stream. No
  process is launched, no build step runs and the clock is not advanced.
\<close>

theorem c_submission_manual_review:
  assumes "find_file submission_path tree ''PingClient'' = Inr (Some code_file)"
    and "language code_file = ''C''"
  shows "run_individual_submission env submission_path tree out_stream w =
           (Inr OK,
            w\<lparr>log := log w @
               [(now w, WriteMessage out_stream
                          ''Code implemented in C, Please check manually!'' None)]\<rparr>)"
  using assms
  by (simp add: run_individual_submission_def run_lab_2_code_def write_message_def emit_def)

theorem c_submission_manual_review_witness:
  "find_file ''z1'' (Dir [(''PingClient.c'', File)]) ''PingClient'' =
     Inr (Some \<lparr>folder_path = ''z1'', ext = ''.c'', language = ''C''\<rparr>)
   \<and> run_individual_submission (\<lambda>k. steady) ''z1'' (Dir [(''PingClient.c'', File)])
         ''z1_output.txt'' world0 =
       (Inr OK,
        \<lparr>now = 0,
         log = [(0, WriteMessage ''z1_output.txt''
                      ''Code implemented in C, Please check manually!'' None)],
         spawned = 0\<rparr>)"
proof -
  have f: "find_file ''z1'' (Dir [(''PingClient.c'', File)]) ''PingClient'' =
     Inr (Some \<lparr>folder_path = ''z1'', ext = ''.c'', language = ''C''\<rparr>)"
    by (simp add: find_file.simps splitext_PingClient_c lang_map_def)
  show ?thesis
    using c_submission_manual_review[OF f, of "\<lambda>k. steady" "''z1_output.txt''" world0] f
    by (simp add: world0_def)
qed

text \<open>
  C3. For a Python or Java submission the classifier launches the process and polls it
  once with timeout 0.1 before the polling loop. If that poll returns with the liveness
  flag false, the classification is \<open>EXECUTION_FAILED\<close> whatever the clock says, and the
  launch and this one poll are all the classifier did with the process: the polling loop,
  the only place where \<open>UNEXPECTED_TERMINATION\<close> is decided, is never entered.
\<close>

theorem dead_at_first_poll:
  assumes "code_lang = ''Python'' \<or> code_lang = ''Java''"
    and "poll (env (spawned w)) 0 = Returns False"
  shows "fst (run_lab_2_code env code_file_dir code_lang out_stream port_num w) =
           Inr EXECUTION_FAILED
         \<and> events (snd (run_lab_2_code env code_file_dir code_lang out_stream port_num w)) =
           events w
           @ (if code_lang = ''Java''
              then [System (''javac '' @ path_join code_file_dir ''PingClient.java'')] else [])
           @ [Spawn (spawned w)
                ((if code_lang = ''Java'' then ''java PingClient localhost ''
                  else ''python PingClient.py localhost '') @ str_nat port_num)
                code_file_dir,
              GetOutput (spawned w) (1 / 10)]"
  using assms
  by (auto simp: run_lab_2_code_def launch_def process_commands_def ProcessHandler_def
      watch_client_def get_output_def os_system_def Let_def world_simps)


theorem dead_at_first_poll_witness:
  "(''Python'' = ''Python'' \<or> ''Python'' = ''Java'')
   \<and> poll ((\<lambda>k. stillborn) (spawned world0)) 0 = Returns False
   \<and> fst (run_lab_2_code (\<lambda>k. stillborn) ''z1'' ''Python'' ''z1_output.txt'' 12000 world0) =
        Inr EXECUTION_FAILED
   \<and> events (snd (run_lab_2_code (\<lambda>k. stillborn) ''z1'' ''Python'' ''z1_output.txt'' 12000
                world0)) =
        [Spawn 0 ''python PingClient.py localhost 12000'' ''z1'', GetOutput 0 (1 / 10)]"
  using dead_at_first_poll[of "''Python''" "\<lambda>k. stillborn" world0 "''z1''"
      "''z1_output.txt''" 12000]
  by (simp add: stillborn_def world0_def str_nat_12000 events_def)

lemma get_output_returns:
  "poll (env (pid c)) (polls c) = Returns alive \<Longrightarrow>
   get_output env c t w =
     (Inr (c\<lparr>polls := polls c + 1, is_alive := alive\<rparr>),
      tick (poll_dur (env (pid c)) (polls c)) (emit (GetOutput (pid c) t) w))"
  by (simp add: get_output_def Let_def)

lemma get_output_raises:
  "poll (env (pid c)) (polls c) = Raises \<Longrightarrow>
   get_output env c t w =
     (Inl ChildProcessError,
      tick (poll_dur (env (pid c)) (polls c)) (emit (GetOutput (pid c) t) w))"
  by (simp add: get_output_def Let_def)

lemma not_Raises: "r \<noteq> Raises \<Longrightarrow> \<exists>alive. r = Returns alive"
  by (cases r) auto

lemma poll_loop_timeout:
  assumes "d = 150 - count" "count \<le> 150"
    and "\<forall>n. polls c \<le> n \<and> n \<le> polls c + d \<longrightarrow> poll (env (pid c)) n \<noteq> Raises"
  shows "fst (poll_loop env c count w) = Inr TIMEOUT
       \<and> events (snd (poll_loop env c count w)) =
           events w @ replicate (d + 1) (GetOutput (pid c) (1 / 10)) @ [KillProcess (pid c)]"
  using assms
proof (induction d arbitrary: c count w)
  case 0
  then have count: "count = 150" by simp
  from 0 have "poll (env (pid c)) (polls c) \<noteq> Raises" by simp
  then obtain alive where "poll (env (pid c)) (polls c) = Returns alive"
    using not_Raises by blast
  then show ?case
    by (subst (1 2) poll_loop.simps)
       (simp add: get_output_returns count kill_process_def world_simps)
next
  case (Suc d)
  then have count: "count + 1 \<le> 150" "d = 150 - (count + 1)" by simp_all
  from Suc.prems have "poll (env (pid c)) (polls c) \<noteq> Raises" by simp
  then obtain alive where ret: "poll (env (pid c)) (polls c) = Returns alive"
    using not_Raises by blast
  let ?c = "c\<lparr>polls := polls c + 1, is_alive := alive\<rparr>"
  let ?w = "tick (poll_dur (env (pid c)) (polls c)) (emit (GetOutput (pid c) (1 / 10)) w)"
  have later: "\<forall>n. polls ?c \<le> n \<and> n \<le> polls ?c + d \<longrightarrow> poll (env (pid ?c)) n \<noteq> Raises"
    using Suc.prems(3) by simp
  have step: "poll_loop env c count w = poll_loop env ?c (count + 1) ?w"
    using count by (subst poll_loop.simps) (simp add: get_output_returns ret)
  from Suc.IH[OF count(2) count(1) later, of ?w] show ?case
    by (simp add: step world_simps replicate_app_Cons_same)
qed

lemma poll_loop_child_ended:
  assumes "count + j \<le> 150"
    and "\<forall>n. polls c \<le> n \<and> n < polls c + j \<longrightarrow> poll (env (pid c)) n \<noteq> Raises"
    and "poll (env (pid c)) (polls c + j) = Raises"
  shows "fst (poll_loop env c count w) = Inl ChildProcessError
       \<and> events (snd (poll_loop env c count w)) =
           events w @ replicate (j + 1) (GetOutput (pid c) (1 / 10))
       \<and> now (snd (poll_loop env c count w)) =
           now w + (\<Sum>n = polls c..polls c + j. poll_dur (env (pid c)) n)
       \<and> spawned (snd (poll_loop env c count w)) = spawned w"
  using assms
proof (induction j arbitrary: c count w)
  case 0
  then have "poll (env (pid c)) (polls c) = Raises" by simp
  then show ?case
    by (subst (1 2 3 4) poll_loop.simps) (simp add: get_output_raises world_simps)
next
  case (Suc j)
  then have count: "count + 1 + j \<le> 150" by simp
  from Suc.prems have "poll (env (pid c)) (polls c) \<noteq> Raises" by simp
  then obtain alive where ret: "poll (env (pid c)) (polls c) = Returns alive"
    using not_Raises by blast
  let ?c = "c\<lparr>polls := polls c + 1, is_alive := alive\<rparr>"
  let ?w = "tick (poll_dur (env (pid c)) (polls c)) (emit (GetOutput (pid c) (1 / 10)) w)"
  have later: "\<forall>n. polls ?c \<le> n \<and> n < polls ?c + j \<longrightarrow> poll (env (pid ?c)) n \<noteq> Raises"
    using Suc.prems(2) by simp
  have last: "poll (env (pid ?c)) (polls ?c + j) = Raises"
    using Suc.prems(3) by simp
  have step: "poll_loop env c count w = poll_loop env ?c (count + 1) ?w"
    using count by (subst poll_loop.simps) (simp add: get_output_returns ret)
  have sum: "poll_dur (env (pid c)) (polls c)
      + sum (poll_dur (env (pid c))) {Suc (polls c)..polls c + j} =
      sum (poll_dur (env (pid c))) {polls c..polls c + j}"
    by (simp add: sum.atLeast_Suc_atMost)
  from Suc.IH[OF count later last, of ?w] show ?case
    using sum by (simp add: step world_simps replicate_app_Cons_same)
qed

lemma poll_loop_results:
  "fst (poll_loop env c count w) = Inr TIMEOUT \<or> fst (poll_loop env c count w) = Inl ChildProcessError"
proof (induction env c count w rule: poll_loop.induct)
  case (1 env c count w)
  show ?case
  proof (cases "poll (env (pid c)) (polls c)")
    case (Returns alive)
    show ?thesis
    proof (cases "count + 1 > 150")
      case True
      then show ?thesis
        by (subst (1 2) poll_loop.simps) (simp add: get_output_returns Returns)
    next
      case False
      from 1[OF get_output_returns[of env c alive "1 / 10" w, OF Returns, symmetric] refl False]
      show ?thesis
        using False by (subst (1 2) poll_loop.simps) (simp add: get_output_returns Returns)
    qed
  next
    case Raises
    then show ?thesis
      by (subst (1 2) poll_loop.simps) (simp add: get_output_raises)
  qed
qed

lemma run_lab_2_code_launch:
  assumes "code_lang = ''Python'' \<or> code_lang = ''Java''"
  shows "\<exists>w1. run_lab_2_code env code_file_dir code_lang out_stream port_num w =
           watch_client env \<lparr>pid = spawned w, polls = 0, is_alive = True\<rparr> (now w) w1
         \<and> events w1 = events w @ launch_events (spawned w) code_lang code_file_dir port_num
         \<and> now w1 = now w + (if code_lang = ''Java'' then build_dur (env (spawned w)) else 0)
                     + spawn_dur (env (spawned w))
         \<and> spawned w1 = spawned w + 1"
  using assms
  by (auto simp: run_lab_2_code_def launch_def process_commands_def ProcessHandler_def
      os_system_def Let_def world_simps launch_events_def)

lemma watch_client_alive:
  assumes "poll (env (pid c)) (polls c) = Returns True"
  shows "watch_client env c t0 w =
     (case poll_loop env (c\<lparr>polls := polls c + 1, is_alive := True\<rparr>) 0
             (tick (poll_dur (env (pid c)) (polls c)) (emit (GetOutput (pid c) (1 / 10)) w)) of
        (Inl ChildProcessError, w2) \<Rightarrow>
          (if now w2 - t0 < 2 then (Inr UNEXPECTED_TERMINATION, w2) else (Inr OK, w2))
      | (Inl e, w2) \<Rightarrow> (Inl e, w2)
      | (Inr status, w2) \<Rightarrow> (Inr status, w2))"
  by (simp add: watch_client_def get_output_returns assms)

lemma watch_client_child_ended:
  assumes first: "poll (env (pid c)) 0 = Returns True" and c: "polls c = 0"
    and m: "1 \<le> m" "m \<le> 151"
    and before: "\<forall>n. 1 \<le> n \<and> n < m \<longrightarrow> poll (env (pid c)) n \<noteq> Raises"
    and ended: "poll (env (pid c)) m = Raises"
  shows "fst (watch_client env c t0 w) =
           Inr (if now (snd (watch_client env c t0 w)) - t0 < 2
                then UNEXPECTED_TERMINATION else OK)
       \<and> events (snd (watch_client env c t0 w)) =
           events w @ replicate (m + 1) (GetOutput (pid c) (1 / 10))
       \<and> now (snd (watch_client env c t0 w)) =
           now w + (\<Sum>n = 0..m. poll_dur (env (pid c)) n)"
proof -
  let ?c = "c\<lparr>polls := polls c + 1, is_alive := True\<rparr>"
  let ?w = "tick (poll_dur (env (pid c)) (polls c)) (emit (GetOutput (pid c) (1 / 10)) w)"
  obtain j where j: "m = j + 1" using m(1) by (metis add.commute le_Suc_ex plus_1_eq_Suc)
  have a: "0 + j \<le> 150" using m(2) j by simp
  have b: "\<forall>n. polls ?c \<le> n \<and> n < polls ?c + j \<longrightarrow> poll (env (pid ?c)) n \<noteq> Raises"
    using before c j by simp
  have d: "poll (env (pid ?c)) (polls ?c + j) = Raises"
    using ended c j by simp
  obtain r w2 where run: "poll_loop env ?c 0 ?w = (r, w2)"
    by (cases "poll_loop env ?c 0 ?w")
  from poll_loop_child_ended[of 0 j ?c env ?w, OF a b d] run
  have r: "r = Inl ChildProcessError"
    and ev: "events w2 = events ?w @ replicate (j + 1) (GetOutput (pid c) (1 / 10))"
    and t: "now w2 = now ?w + (\<Sum>n = 1..1 + j. poll_dur (env (pid c)) n)"
    using c by simp_all
  have sum: "(\<Sum>n = 0..m. poll_dur (env (pid c)) n) =
      poll_dur (env (pid c)) 0 + (\<Sum>n = 1..1 + j. poll_dur (env (pid c)) n)"
    unfolding j by (simp add: sum.atLeast_Suc_atMost)
  have wc: "watch_client env c t0 w =
      (if now w2 - t0 < 2 then (Inr UNEXPECTED_TERMINATION, w2) else (Inr OK, w2))"
    using first c run r by (simp add: watch_client_alive)
  show ?thesis
    unfolding wc sum using ev t c j
    by (simp add: world_simps replicate_app_Cons_same)
qed

text \<open>
  The handler of line 94. When a poll of the polling loop signals that the child has
  ended, the classifier compares the clock with \<open>exec_start_time\<close>, the reading taken
  on entry: below 2 the classification is \<open>UNEXPECTED_TERMINATION\<close>, at 2 or above (2
  itself included) it is \<open>OK\<close>. The time compared is the duration of the build step (Java
  only), of the launch and of all polls made.
\<close>

lemma handler_threshold:
  assumes "code_lang = ''Python'' \<or> code_lang = ''Java''"
    and "poll (env (spawned w)) 0 = Returns True"
    and "1 \<le> m" and "m \<le> 151"
    and "\<forall>n. 1 \<le> n \<and> n < m \<longrightarrow> poll (env (spawned w)) n \<noteq> Raises"
    and "poll (env (spawned w)) m = Raises"
  shows "fst (run_lab_2_code env code_file_dir code_lang out_stream port_num w) =
           Inr (if now (snd (run_lab_2_code env code_file_dir code_lang out_stream port_num w))
                   - now w < 2
                then UNEXPECTED_TERMINATION else OK)
       \<and> now (snd (run_lab_2_code env code_file_dir code_lang out_stream port_num w)) - now w =
           (if code_lang = ''Java'' then build_dur (env (spawned w)) else 0)
           + spawn_dur (env (spawned w))
           + (\<Sum>n = 0..m. poll_dur (env (spawned w)) n)"
proof -
  let ?c = "\<lparr>pid = spawned w, polls = 0, is_alive = True\<rparr>"
  obtain w1 where run: "run_lab_2_code env code_file_dir code_lang out_stream port_num w =
           watch_client env ?c (now w) w1"
    and t1: "now w1 = now w + (if code_lang = ''Java'' then build_dur (env (spawned w)) else 0)
                     + spawn_dur (env (spawned w))"
    using run_lab_2_code_launch[OF assms(1)] by blast
  from watch_client_child_ended[of env ?c m "now w" w1] assms
  show ?thesis unfolding run by (simp add: t1)
qed

lemma exits_at_sel:
  "poll (exits_at m) n = (if n < m then Returns True else Raises)"
  "poll_dur (exits_at m) n = 1 / 10"
  "build_dur (exits_at m) = 0"
  "spawn_dur (exits_at m) = 0"
  by (simp_all add: exits_at_def)

lemma world0_sel: "now world0 = 0" "spawned world0 = 0" "log world0 = []"
  by (simp_all add: world0_def)

lemma handler_threshold_boundary:
  "(''Python'' = ''Python'' \<or> ''Python'' = ''Java'')
   \<and> poll ((\<lambda>k. exits_at 19) (spawned world0)) 0 = Returns True
   \<and> poll ((\<lambda>k. exits_at 19) (spawned world0)) 19 = Raises
   \<and> now (snd (run_lab_2_code (\<lambda>k. exits_at 19) ''z1'' ''Python'' ''o'' 12000 world0))
       - now world0 = 2
   \<and> fst (run_lab_2_code (\<lambda>k. exits_at 19) ''z1'' ''Python'' ''o'' 12000 world0) = Inr OK
   \<and> now (snd (run_lab_2_code (\<lambda>k. exits_at 18) ''z1'' ''Python'' ''o'' 12000 world0))
       - now world0 = 19 / 10
   \<and> fst (run_lab_2_code (\<lambda>k. exits_at 18) ''z1'' ''Python'' ''o'' 12000 world0) =
       Inr UNEXPECTED_TERMINATION"
proof -
  have a: "now (snd (run_lab_2_code (\<lambda>k. exits_at 19) ''z1'' ''Python'' ''o'' 12000 world0))
       - now world0 = 2"
    and b: "fst (run_lab_2_code (\<lambda>k. exits_at 19) ''z1'' ''Python'' ''o'' 12000 world0) =
       Inr (if now (snd (run_lab_2_code (\<lambda>k. exits_at 19) ''z1'' ''Python'' ''o'' 12000 world0))
       - now world0 < 2 then UNEXPECTED_TERMINATION else OK)"
    using handler_threshold[of "''Python''" "\<lambda>k. exits_at 19" world0 19 "''z1''" "''o''"
        12000]
    by (simp_all add: exits_at_sel)
  have c: "now (snd (run_lab_2_code (\<lambda>k. exits_at 18) ''z1'' ''Python'' ''o'' 12000 world0))
       - now world0 = 19 / 10"
    and d: "fst (run_lab_2_code (\<lambda>k. exits_at 18) ''z1'' ''Python'' ''o'' 12000 world0) =
       Inr (if now (snd (run_lab_2_code (\<lambda>k. exits_at 18) ''z1'' ''Python'' ''o'' 12000 world0))
       - now world0 < 2 then UNEXPECTED_TERMINATION else OK)"
    using handler_threshold[of "''Python''" "\<lambda>k. exits_at 18" world0 18 "''z1''" "''o''"
        12000]
    by (simp_all add: exits_at_sel)
  show ?thesis
    unfolding b d unfolding a c by (simp add: exits_at_sel)
qed

lemma poll_loop_raise_now:
  "poll (env (pid c)) (polls c) = Raises \<Longrightarrow>
   poll_loop env c count w =
     (Inl ChildProcessError,
      tick (poll_dur (env (pid c)) (polls c)) (emit (GetOutput (pid c) (1 / 10)) w))"
  by (subst poll_loop.simps) (simp add: get_output_raises)

lemma slow_build_sel:
  "poll slow_build n = (if n < 1 then Returns True else Raises)"
  "poll_dur slow_build n = 1 / 10"
  "build_dur slow_build = 3"
  "spawn_dur slow_build = 0"
  by (simp_all add: slow_build_def)

lemma slow_python:
  "fst (run_lab_2_code (\<lambda>k. slow_build) ''z1'' ''Python'' ''o'' 12000 world0) =
     Inr UNEXPECTED_TERMINATION"
  by (simp add: run_lab_2_code_def launch_def process_commands_def ProcessHandler_def
      watch_client_def get_output_returns poll_loop_raise_now Let_def slow_build_sel
      world0_def world_simps)

text \<open>
  C1. A process whose end is signalled inside the polling loop less than 2 time units after
  its launch is to be classified \<open>UNEXPECTED_TERMINATION\<close>. The code measures from
  \<open>exec_start_time\<close>, read at line 63 before the Java build step: a Java client whose
  build takes 3 time units and which ends 0.2 time units after its launch is classified
  \<open>OK\<close>, while the same client run as a Python submission is classified
  \<open>UNEXPECTED_TERMINATION\<close>.
\<close>

theorem java_build_time_counted:
  "run_lab_2_code (\<lambda>k. slow_build) ''z1'' ''Java'' ''o'' 12000 world0 =
     (Inr OK,
      \<lparr>now = 16 / 5,
       log = [(0, System ''javac z1/PingClient.java''),
              (3, Spawn 0 ''java PingClient localhost 12000'' ''z1''),
              (3, GetOutput 0 (1 / 10)),
              (31 / 10, GetOutput 0 (1 / 10))],
       spawned = 1\<rparr>)
   \<and> spawn_times 0
        (log (snd (run_lab_2_code (\<lambda>k. slow_build) ''z1'' ''Java'' ''o'' 12000 world0))) = [3]
   \<and> now (snd (run_lab_2_code (\<lambda>k. slow_build) ''z1'' ''Java'' ''o'' 12000 world0)) - 3 < 2
   \<and> fst (run_lab_2_code (\<lambda>k. slow_build) ''z1'' ''Python'' ''o'' 12000 world0) =
       Inr UNEXPECTED_TERMINATION"
proof -
  have run: "run_lab_2_code (\<lambda>k. slow_build) ''z1'' ''Java'' ''o'' 12000 world0 =
     (Inr OK,
      \<lparr>now = 16 / 5,
       log = [(0, System ''javac z1/PingClient.java''),
              (3, Spawn 0 ''java PingClient localhost 12000'' ''z1''),
              (3, GetOutput 0 (1 / 10)),
              (31 / 10, GetOutput 0 (1 / 10))],
       spawned = 1\<rparr>)"
    by (simp add: run_lab_2_code_def launch_def process_commands_def ProcessHandler_def
        os_system_def watch_client_def get_output_returns poll_loop_raise_now Let_def
        slow_build_sel world0_def world_simps path_join_def startswith_def str_nat_12000)
       (simp add: emit_def tick_def)
  show ?thesis unfolding run using slow_python by simp
qed

lemma steady_sel:
  "poll steady n = Returns True"
  "poll_dur steady n = 1 / 10"
  "build_dur steady = 0"
  "spawn_dur steady = 0"
  by (simp_all add: steady_def)

lemma watch_client_timeout:
  assumes first: "poll (env (pid c)) 0 = Returns True" and c: "polls c = 0"
    and later: "\<forall>n. 1 \<le> n \<and> n \<le> 151 \<longrightarrow> poll (env (pid c)) n \<noteq> Raises"
  shows "fst (watch_client env c t0 w) = Inr TIMEOUT
       \<and> events (snd (watch_client env c t0 w)) =
           events w @ GetOutput (pid c) (1 / 10) # replicate 151 (GetOutput (pid c) (1 / 10))
           @ [KillProcess (pid c)]"
proof -
  let ?c = "c\<lparr>polls := polls c + 1, is_alive := True\<rparr>"
  let ?w = "tick (poll_dur (env (pid c)) (polls c)) (emit (GetOutput (pid c) (1 / 10)) w)"
  have b: "\<forall>n. polls ?c \<le> n \<and> n \<le> polls ?c + 150 \<longrightarrow> poll (env (pid ?c)) n \<noteq> Raises"
    using later c by simp
  obtain r w2 where run: "poll_loop env ?c 0 ?w = (r, w2)"
    by (cases "poll_loop env ?c 0 ?w")
  from poll_loop_timeout[of 150 0 ?c env ?w, OF _ _ b] run
  have r: "r = Inr TIMEOUT"
    and ev: "events w2 = events ?w @ replicate 151 (GetOutput (pid c) (1 / 10))
               @ [KillProcess (pid c)]"
    by simp_all
  have wc: "watch_client env c t0 w = (Inr TIMEOUT, w2)"
    using first c run r by (simp add: watch_client_alive)
  show ?thesis
    unfolding wc using ev by (simp add: world_simps)
qed

lemma run_lab_2_code_timeout:
  assumes "code_lang = ''Python'' \<or> code_lang = ''Java''"
    and "poll (env (spawned w)) 0 = Returns True"
    and "\<forall>n. 1 \<le> n \<and> n \<le> 151 \<longrightarrow> poll (env (spawned w)) n \<noteq> Raises"
  shows "fst (run_lab_2_code env code_file_dir code_lang out_stream port_num w) = Inr TIMEOUT
       \<and> events (snd (run_lab_2_code env code_file_dir code_lang out_stream port_num w)) =
           events w @ launch_events (spawned w) code_lang code_file_dir port_num
           @ GetOutput (spawned w) (1 / 10) # replicate 151 (GetOutput (spawned w) (1 / 10))
           @ [KillProcess (spawned w)]
       \<and> length [e \<leftarrow> events (snd (run_lab_2_code env code_file_dir code_lang out_stream
                                       port_num w)). e = KillProcess (spawned w)] =
           length [e \<leftarrow> events w. e = KillProcess (spawned w)] + 1"
proof -
  let ?c = "\<lparr>pid = spawned w, polls = 0, is_alive = True\<rparr>"
  obtain w1 where run: "run_lab_2_code env code_file_dir code_lang out_stream port_num w =
           watch_client env ?c (now w) w1"
    and e1: "events w1 = events w @ launch_events (spawned w) code_lang code_file_dir port_num"
    using run_lab_2_code_launch[OF assms(1)] by blast
  from watch_client_timeout[of env ?c "now w" w1] assms(2,3)
  have st: "fst (watch_client env ?c (now w) w1) = Inr TIMEOUT"
    and ev: "events (snd (watch_client env ?c (now w) w1)) =
           events w1 @ GetOutput (spawned w) (1 / 10) # replicate 151 (GetOutput (spawned w) (1 / 10))
           @ [KillProcess (spawned w)]"
    by simp_all
  show ?thesis
    unfolding run st ev e1 by (simp add: launch_events_def)
qed

text \<open>
  C2 (amended). A process whose handle never signals its end (the first poll returns with
  the liveness flag set, the next 151 polls return) is polled once before the loop and 151
  times in the loop, each time with timeout 0.1: the loop stops when the counter exceeds
  150, that is in its 151st iteration. Then the process is killed, exactly once, and the
  classification is \<open>TIMEOUT\<close>.
\<close>

theorem timeout_after_151_loop_polls:
  assumes "code_lang = ''Python'' \<or> code_lang = ''Java''"
    and "poll (env (spawned w)) 0 = Returns True"
    and "\<forall>n. 1 \<le> n \<and> n \<le> 151 \<longrightarrow> poll (env (spawned w)) n \<noteq> Raises"
  shows "fst (run_lab_2_code env code_file_dir code_lang out_stream port_num w) = Inr TIMEOUT
       \<and> events (snd (run_lab_2_code env code_file_dir code_lang out_stream port_num w)) =
           events w @ launch_events (spawned w) code_lang code_file_dir port_num
           @ GetOutput (spawned w) (1 / 10) # replicate 151 (GetOutput (spawned w) (1 / 10))
           @ [KillProcess (spawned w)]
       \<and> length [e \<leftarrow> events (snd (run_lab_2_code env code_file_dir code_lang out_stream
                                       port_num w)). e = KillProcess (spawned w)] =
           length [e \<leftarrow> events w. e = KillProcess (spawned w)] + 1"
  using assms by (rule run_lab_2_code_timeout)

theorem timeout_after_151_loop_polls_witness:
  "(''Python'' = ''Python'' \<or> ''Python'' = ''Java'')
   \<and> poll ((\<lambda>k. steady) (spawned world0)) 0 = Returns True
   \<and> fst (run_lab_2_code (\<lambda>k. steady) ''z1'' ''Python'' ''o'' 12000 world0) = Inr TIMEOUT
   \<and> events (snd (run_lab_2_code (\<lambda>k. steady) ''z1'' ''Python'' ''o'' 12000 world0)) =
       Spawn 0 ''python PingClient.py localhost 12000'' ''z1''
       # GetOutput 0 (1 / 10) # replicate 151 (GetOutput 0 (1 / 10)) @ [KillProcess 0]
   \<and> length [e \<leftarrow> events (snd (run_lab_2_code (\<lambda>k. steady) ''z1'' ''Python'' ''o'' 12000
                                  world0)). e = KillProcess 0] = 1"
  using timeout_after_151_loop_polls[of "''Python''" "\<lambda>k. steady" world0 "''z1''" "''o''" 12000]
  by (simp add: steady_sel world0_sel events_def launch_events_def str_nat_12000)

text \<open>
  C2 as stated, with the kill after exactly 150 iterations, fails for the process
  that never ends: the kill follows the first poll and 151 polls of the loop, not 150.
\<close>

theorem timeout_after_150_polls_counterexample:
  "fst (run_lab_2_code (\<lambda>k. steady) ''z1'' ''Python'' ''o'' 12000 world0) = Inr TIMEOUT
   \<and> length [e \<leftarrow> events (snd (run_lab_2_code (\<lambda>k. steady) ''z1'' ''Python'' ''o'' 12000
                                  world0)). e = GetOutput 0 (1 / 10)] = 1 + 151
   \<and> events (snd (run_lab_2_code (\<lambda>k. steady) ''z1'' ''Python'' ''o'' 12000 world0)) \<noteq>
       Spawn 0 ''python PingClient.py localhost 12000'' ''z1''
       # GetOutput 0 (1 / 10) # replicate 150 (GetOutput 0 (1 / 10)) @ [KillProcess 0]"
proof -
  have "(''Python'' = ''Python'' \<or> ''Python'' = ''Java'')"
    and "poll ((\<lambda>k. steady) (spawned world0)) 0 = Returns True"
    and "\<forall>n. 1 \<le> n \<and> n \<le> 151 \<longrightarrow> poll ((\<lambda>k. steady) (spawned world0)) n \<noteq> Raises"
    by (simp_all add: steady_sel)
  from run_lab_2_code_timeout[of "''Python''" "\<lambda>k. steady" world0 "''z1''" "''o''" 12000, OF this]
  have st: "fst (run_lab_2_code (\<lambda>k. steady) ''z1'' ''Python'' ''o'' 12000 world0) = Inr TIMEOUT"
    and ev: "events (snd (run_lab_2_code (\<lambda>k. steady) ''z1'' ''Python'' ''o'' 12000 world0)) =
       Spawn 0 ''python PingClient.py localhost 12000'' ''z1''
       # GetOutput 0 (1 / 10) # replicate 151 (GetOutput 0 (1 / 10)) @ [KillProcess 0]"
    by (simp_all add: world0_sel events_def launch_events_def str_nat_12000)
  have "length (Spawn 0 ''python PingClient.py localhost 12000'' ''z1''
       # GetOutput 0 (1 / 10) # replicate 151 (GetOutput 0 (1 / 10)) @ [KillProcess 0]) \<noteq>
      length (Spawn 0 ''python PingClient.py localhost 12000'' ''z1''
       # GetOutput 0 (1 / 10) # replicate 150 (GetOutput 0 (1 / 10)) @ [KillProcess 0])"
    by simp
  then have ne: "Spawn 0 ''python PingClient.py localhost 12000'' ''z1''
       # GetOutput 0 (1 / 10) # replicate 151 (GetOutput 0 (1 / 10)) @ [KillProcess 0] \<noteq>
       Spawn 0 ''python PingClient.py localhost 12000'' ''z1''
       # GetOutput 0 (1 / 10) # replicate 150 (GetOutput 0 (1 / 10)) @ [KillProcess 0]"
    by metis
  show ?thesis unfolding st ev using ne by simp
qed








section \<open>The batch driver\<close>

lemma keys_dict_set: "fst ` set (dict_set d k v) = insert k (fst ` set d)"
proof (cases "map_of d k")
  case None
  then show ?thesis by (simp add: dict_set_def)
next
  case (Some old)
  then have "(k, old) \<in> set d" by (rule map_of_SomeD)
  then have "k \<in> fst ` set d" by force
  moreover have "fst ` set (map (\<lambda>(k', v'). if k' = k then (k', v) else (k', v')) d) =
      fst ` set d"
    by (induction d) (auto split: if_splits)
  ultimately show ?thesis using Some by (auto simp: dict_set_def)
qed

lemma auto_loop_hidden:
  "auto_loop env gd cp out entries failed w =
   auto_loop env gd cp out [e \<leftarrow> entries. \<not> startswith (fst e) ''.''] failed w"
proof (induction entries arbitrary: failed w)
  case Nil
  then show ?case by simp
next
  case (Cons e entries)
  obtain s t where e: "e = (s, t)" by (cases e)
  show ?case
    by (simp add: e Cons.IH Let_def split: prod.splits sum.splits)
qed

lemma auto_loop_keys:
  "auto_loop env gd cp out entries failed w = (Inr failed', w') \<Longrightarrow>
   key \<in> fst ` set failed' \<Longrightarrow>
     key \<in> fst ` set failed \<or> (key \<in> fst ` set entries \<and> \<not> startswith key ''.'')"
proof (induction entries arbitrary: failed w)
  case Nil
  then show ?case by simp
next
  case (Cons e entries)
  obtain s t where e: "e = (s, t)" by (cases e)
  show ?case
  proof (cases "startswith s ''.''")
    case True
    with Cons.prems e have "auto_loop env gd cp out entries failed w = (Inr failed', w')"
      by simp
    from Cons.IH[OF this Cons.prems(2)] show ?thesis by auto
  next
    case False
    obtain r w2 where run:
      "run_individual_submission env (path_join cp s) t (output_file out s)
         (emit (OpenStream (output_file out s) None) w) = (r, w2)"
      by (cases "run_individual_submission env (path_join cp s) t (output_file out s)
        (emit (OpenStream (output_file out s) None) w)")
    show ?thesis
    proof (cases r)
      case (Inl err)
      with Cons.prems e False run show ?thesis by (simp add: StreamHandler_def Let_def)
    next
      case (Inr status)
      with Cons.prems e False run
      have "auto_loop env gd cp out entries
              (if value_nonzero status then dict_set failed s (gd status) else failed)
              (close (output_file out s) w2) = (Inr failed', w')"
        by (simp add: StreamHandler_def Let_def)
      from Cons.IH[OF this Cons.prems(2)] e False show ?thesis
        by (auto simp: keys_dict_set split: if_splits)
    qed
  qed
qed

text \<open>
  C9. In automatic mode the entries of the class directory whose name starts with a dot
  have no effect at all: the batch loop gives the same ledger and the same world (the same
  output streams opened, the same processes launched) as on the listing without them.
  A ledger built from the empty one has no key that starts with a dot.
\<close>

theorem hidden_entries_skipped:
  "auto_loop env get_description class_path output_destination entries failed_processes w =
     auto_loop env get_description class_path output_destination
       [e \<leftarrow> entries. \<not> startswith (fst e) ''.''] failed_processes w
   \<and> (auto_loop env get_description class_path output_destination entries [] w =
         (Inr failed, w')
       \<and> key \<in> fst ` set failed \<longrightarrow> \<not> startswith key ''.'')"
  using auto_loop_hidden[of env get_description class_path output_destination entries
      failed_processes w]
    auto_loop_keys[of env get_description class_path output_destination entries "[]" w
      failed w' key]
  by auto

theorem hidden_entries_skipped_witness:
  "auto_loop (\<lambda>k. steady) describe ''cls'' ''out'' [(''.git'', Dir []), (''z1'', Dir [])] []
     world0 =
     (Inr [(''z1'', ''file not found'')],
      \<lparr>now = 0,
       log = [(0, OpenStream ''out/z1_output.txt'' None),
              (0, WriteMessage ''out/z1_output.txt'' ''File not found'' (Some True)),
              (0, CloseStream ''out/z1_output.txt'')],
       spawned = 0\<rparr>)
   \<and> ''z1'' \<in> fst ` set [(''z1'', ''file not found'')]
   \<and> \<not> startswith ''z1'' ''.''"
proof -
  have run: "auto_loop (\<lambda>k. steady) describe ''cls'' ''out''
       [(''.git'', Dir []), (''z1'', Dir [])] [] world0 =
     (Inr [(''z1'', ''file not found'')],
      \<lparr>now = 0,
       log = [(0, OpenStream ''out/z1_output.txt'' None),
              (0, WriteMessage ''out/z1_output.txt'' ''File not found'' (Some True)),
              (0, CloseStream ''out/z1_output.txt'')],
       spawned = 0\<rparr>)"
    by (simp add: startswith_def StreamHandler_def output_file_def
        run_individual_submission_def find_file.simps write_message_def close_def emit_def
        world0_def value_nonzero_def dict_set_def describe_def)
  show ?thesis
    using hidden_entries_skipped[of "\<lambda>k. steady" describe "''cls''" "''out''"
        "[(''.git'', Dir []), (''z1'', Dir [])]" "[]" world0
        "[(''z1'', ''file not found'')]" _ "''z1''"] run
    by simp
qed

section \<open>Output streams and the retry loop\<close>

lemma quiet_refl: "quiet w w"
  by (simp add: quiet_def)

lemma quiet_trans: "quiet w w1 \<Longrightarrow> quiet w1 w2 \<Longrightarrow> quiet w w2"
  by (auto simp: quiet_def)

lemma quiet_emit: "\<not> is_stream_event e \<Longrightarrow> quiet w (emit e w)"
  by (simp add: quiet_def events_emit)

lemma quiet_tick: "quiet w (tick d w)"
  by (simp add: quiet_def events_tick)

lemma quiet_spawned_update: "quiet w (w\<lparr>spawned := k\<rparr>)"
  by (simp add: quiet_def events_spawned_update)

lemma quiet_step: "quiet w w1 \<Longrightarrow> \<not> is_stream_event e \<Longrightarrow> quiet w (tick d (emit e w1))"
  by (meson quiet_trans quiet_emit quiet_tick)

lemma quiet_get_output: "quiet w (snd (get_output env c t w))"
  by (cases "poll (env (pid c)) (polls c)")
     (simp_all add: get_output_def Let_def quiet_step quiet_refl)

lemma quiet_poll_loop: "quiet w (snd (poll_loop env c count w))"
proof (induction env c count w rule: poll_loop.induct)
  case (1 env c count w)
  obtain r w1 where g: "get_output env c (1 / 10) w = (r, w1)"
    by (cases "get_output env c (1 / 10) w")
  have w1: "quiet w w1"
    using quiet_get_output[of w env c "1 / 10"] g by simp
  show ?case
  proof (cases r)
    case (Inl e)
    with g w1 show ?thesis by (subst poll_loop.simps) simp
  next
    case (Inr c')
    show ?thesis
    proof (cases "count + 1 > 150")
      case True
      have "quiet w1 (kill_process c' w1)"
        by (simp add: kill_process_def quiet_emit)
      with g Inr w1 True show ?thesis
        by (subst poll_loop.simps) (auto intro: quiet_trans)
    next
      case False
      from 1[OF g[symmetric] Inr] False
      have "quiet w1 (snd (poll_loop env c' (count + 1) w1))" by simp
      with g Inr w1 False show ?thesis
        by (subst poll_loop.simps) (auto intro: quiet_trans)
    qed
  qed
qed

lemma quiet_watch_client: "quiet w (snd (watch_client env c t0 w))"
proof -
  obtain r w1 where g: "get_output env c (1 / 10) w = (r, w1)"
    by (cases "get_output env c (1 / 10) w")
  have w1: "quiet w w1"
    using quiet_get_output[of w env c "1 / 10"] g by simp
  show ?thesis
  proof (cases r)
    case (Inl e)
    with g w1 show ?thesis by (simp add: watch_client_def)
  next
    case (Inr c1)
    obtain r2 w2 where p: "poll_loop env c1 0 w1 = (r2, w2)"
      by (cases "poll_loop env c1 0 w1")
    have "quiet w1 w2"
      using quiet_poll_loop[of w1 env c1 0] p by simp
    with w1 have "quiet w w2" by (rule quiet_trans)
    with g Inr p w1 show ?thesis
      by (simp add: watch_client_def split: sum.splits error.splits)
  qed
qed

lemma quiet_launch:
  assumes "quiet w w0"
  shows "quiet w (snd (launch env port_num key out_stream code_file_dir t0 w0))"
proof (cases "process_commands port_num key")
  case None
  with assms show ?thesis by (simp add: launch_def)
next
  case (Some command)
  let ?w1 = "tick (spawn_dur (env (spawned w0))) (emit (Spawn (spawned w0) command code_file_dir) w0)
               \<lparr>spawned := spawned w0 + 1\<rparr>"
  have "quiet w (tick (spawn_dur (env (spawned w0)))
                   (emit (Spawn (spawned w0) command code_file_dir) w0))"
    using assms by (simp add: quiet_step)
  then have "quiet w ?w1"
    by (rule quiet_trans) (rule quiet_spawned_update)
  then show ?thesis
    using Some quiet_watch_client[of ?w1 env _ t0]
    by (auto simp: launch_def ProcessHandler_def Let_def intro: quiet_trans)
qed

lemma quiet_run_lab_2_code:
  "quiet w (snd (run_lab_2_code env code_file_dir code_lang out_stream port_num w))"
proof -
  have "quiet w (os_system env command w)" for command
    by (simp add: os_system_def quiet_step quiet_refl)
  then show ?thesis
    by (simp add: run_lab_2_code_def Let_def quiet_launch quiet_refl write_message_def
        quiet_emit)
qed

lemma quiet_run_individual_submission:
  "quiet w (snd (run_individual_submission env submission_path tree out_stream w))"
  by (simp add: run_individual_submission_def quiet_run_lab_2_code write_message_def
      quiet_emit quiet_refl split: sum.splits option.splits)

lemma sessions_quiet:
  "filter is_stream_event mid = [] \<Longrightarrow>
   sessions (Some f) (mid @ rest) = sessions (Some f) rest"
proof (induction mid)
  case Nil
  then show ?case by simp
next
  case (Cons e mid)
  then show ?case by (cases e) (auto split: if_splits)
qed

lemma session_closed:
  assumes "quiet (emit (OpenStream f terminal_out) w) w2"
    and "events w' = events (close f w2) @ new"
    and "sessions None new = Some (fs, c)"
  shows "\<exists>new'. events w' = events w @ new' \<and> sessions None new' = Some (f # fs, c)"
proof -
  from assms(1) obtain mid where mid: "events w2 = events w @ OpenStream f terminal_out # mid"
    and q: "filter is_stream_event mid = []"
    by (auto simp: quiet_def events_emit)
  have "events w' = events w @ (OpenStream f terminal_out # mid @ CloseStream f # new)"
    using assms(2) mid by (simp add: close_def events_emit)
  moreover have "sessions None (OpenStream f terminal_out # mid @ CloseStream f # new) =
      Some (f # fs, c)"
    using sessions_quiet[OF q, of f "CloseStream f # new"] assms(3) by simp
  ultimately show ?thesis by blast
qed

lemma session_closed_last:
  assumes "quiet (emit (OpenStream f terminal_out) w) w2"
  shows "\<exists>new'. events (close f w2) = events w @ new' \<and> sessions None new' = Some ([f], None)"
  using session_closed[OF assms, of "close f w2" "[]" "[]" None] by simp

lemma session_open:
  assumes "quiet (emit (OpenStream f terminal_out) w) w2"
  shows "\<exists>new'. events w2 = events w @ new' \<and> sessions None new' = Some ([], Some f)"
proof -
  from assms obtain mid where mid: "events w2 = events w @ OpenStream f terminal_out # mid"
    and q: "filter is_stream_event mid = []"
    by (auto simp: quiet_def events_emit)
  have "sessions None (OpenStream f terminal_out # mid) = Some ([], Some f)"
    using sessions_quiet[OF q, of f "[]"] by simp
  with mid show ?thesis by blast
qed

lemma auto_loop_streams:
  "auto_loop env gd cp out entries failed w = (r, w') \<Longrightarrow>
   \<exists>new finished rest c.
     [e \<leftarrow> entries. \<not> startswith (fst e) ''.''] = finished @ rest
     \<and> events w' = events w @ new
     \<and> sessions None new = Some (map (\<lambda>e. output_file out (fst e)) finished, c)
     \<and> (case r of
           Inr ledger \<Rightarrow> rest = [] \<and> c = None
         | Inl err \<Rightarrow> rest \<noteq> [] \<and> c = Some (output_file out (fst (hd rest))))"
proof (induction entries arbitrary: failed w)
  case Nil
  then show ?case by auto
next
  case (Cons e entries)
  obtain s t where e: "e = (s, t)" by (cases e)
  show ?case
  proof (cases "startswith s ''.''")
    case True
    with Cons.prems e have "auto_loop env gd cp out entries failed w = (r, w')"
      by simp
    from Cons.IH[OF this] True e show ?thesis by simp
  next
    case False
    let ?f = "output_file out s"
    let ?w1 = "emit (OpenStream ?f None) w"
    obtain r2 w2 where run: "run_individual_submission env (path_join cp s) t ?f ?w1 = (r2, w2)"
      by (cases "run_individual_submission env (path_join cp s) t ?f ?w1")
    have q: "quiet ?w1 w2"
      using quiet_run_individual_submission[of ?w1 env "path_join cp s" t ?f] run by simp
    show ?thesis
    proof (cases r2)
      case (Inl err)
      with Cons.prems e False run have res: "r = Inl err" "w' = w2"
        by (simp_all add: StreamHandler_def Let_def)
      from session_open[OF q] obtain new where
        new: "events w2 = events w @ new" "sessions None new = Some ([], Some ?f)"
        by blast
      have "[e \<leftarrow> e # entries. \<not> startswith (fst e) ''.''] =
          [] @ (s, t) # [e \<leftarrow> entries. \<not> startswith (fst e) ''.'']"
        using e False by simp
      with res new show ?thesis
        by (intro exI[of _ new] exI[of _ "[]"]
            exI[of _ "(s, t) # [e \<leftarrow> entries. \<not> startswith (fst e) ''.'']"]
            exI[of _ "Some ?f"]) simp
    next
      case (Inr status)
      with Cons.prems e False run
      have "auto_loop env gd cp out entries
              (if value_nonzero status then dict_set failed s (gd status) else failed)
              (close ?f w2) = (r, w')"
        by (simp add: StreamHandler_def Let_def)
      from Cons.IH[OF this] obtain new finished rest c where
        split: "[e \<leftarrow> entries. \<not> startswith (fst e) ''.''] = finished @ rest"
        and ev: "events w' = events (close ?f w2) @ new"
        "sessions None new = Some (map (\<lambda>e. output_file out (fst e)) finished, c)"
        and fin: "case r of Inr ledger \<Rightarrow> rest = [] \<and> c = None
                  | Inl err \<Rightarrow> rest \<noteq> [] \<and> c = Some (output_file out (fst (hd rest)))"
        by blast
      from session_closed[OF q ev] obtain new' where
        new': "events w' = events w @ new'"
        "sessions None new' = Some (?f # map (\<lambda>e. output_file out (fst e)) finished, c)"
        by blast
      have "[e \<leftarrow> e # entries. \<not> startswith (fst e) ''.''] = ((s, t) # finished) @ rest"
        using e False split by simp
      with new' fin show ?thesis
        by (intro exI[of _ new'] exI[of _ "(s, t) # finished"] exI[of _ rest] exI[of _ c]) simp
    qed
  qed
qed

lemma manual_loop_streams:
  "manual_loop env cp out subs picks w = (res, w') \<Longrightarrow>
   \<exists>new served rest c.
     picks = served @ rest
     \<and> events w' = events w @ new
     \<and> sessions None new =
         Some (concat (map (\<lambda>i. case py_index subs i of
                                   Inr (s, t) \<Rightarrow> [output_file out s] | Inl err \<Rightarrow> []) served), c)
     \<and> (res = Blocked \<longrightarrow> rest = [] \<and> c = None)
     \<and> (c \<noteq> None \<longrightarrow> (\<exists>err. res = Raised err))"
proof (induction picks arbitrary: w)
  case Nil
  then show ?case by auto
next
  case (Cons i picks)
  show ?case
  proof (cases "py_index subs i")
    case (Inl err)
    with Cons.prems have "res = Raised err" "w' = w" by simp_all
    then show ?thesis
      by (intro exI[of _ "[]"] exI[of _ "[]"] exI[of _ "i # picks"] exI[of _ None]) simp
  next
    case (Inr st)
    obtain s t where st: "st = (s, t)" by (cases st)
    let ?f = "output_file out s"
    let ?w1 = "emit (OpenStream ?f (Some True)) w"
    obtain r w2 where run: "run_individual_submission env (path_join cp s) t ?f ?w1 = (r, w2)"
      by (cases "run_individual_submission env (path_join cp s) t ?f ?w1")
    have q: "quiet ?w1 w2"
      using quiet_run_individual_submission[of ?w1 env "path_join cp s" t ?f] run by simp
    show ?thesis
    proof (cases r)
      case (Inl err)
      with Cons.prems Inr st run have res: "res = Raised err" "w' = w2"
        by (simp_all add: StreamHandler_def Let_def)
      from session_open[OF q] obtain new where
        "events w2 = events w @ new" "sessions None new = Some ([], Some ?f)"
        by blast
      with res show ?thesis
        by (intro exI[of _ new] exI[of _ "[]"] exI[of _ "i # picks"] exI[of _ "Some ?f"]) simp
    next
      case status: (Inr status)
      with Cons.prems Inr st run
      have "manual_loop env cp out subs picks (close ?f w2) = (res, w')"
        by (simp add: StreamHandler_def Let_def)
      from Cons.IH[OF this] obtain new served rest c where
        split: "picks = served @ rest"
        and ev: "events w' = events (close ?f w2) @ new"
        "sessions None new =
           Some (concat (map (\<lambda>i. case py_index subs i of
                                   Inr (s, t) \<Rightarrow> [output_file out s] | Inl err \<Rightarrow> []) served), c)"
        and fin: "res = Blocked \<longrightarrow> rest = [] \<and> c = None" "c \<noteq> None \<longrightarrow> (\<exists>err. res = Raised err)"
        by blast
      from session_closed[OF q ev] obtain new' where
        "events w' = events w @ new'"
        "sessions None new' =
           Some (?f # concat (map (\<lambda>i. case py_index subs i of
                                   Inr (s, t) \<Rightarrow> [output_file out s] | Inl err \<Rightarrow> []) served), c)"
        by blast
      with split fin Inr st show ?thesis
        by (intro exI[of _ new'] exI[of _ "i # served"] exI[of _ rest] exI[of _ c]) simp
    qed
  qed
qed

lemma retry_loop_streams:
  "retry_loop env sp entries out picks typed subs h w = (res, subs', h', w') \<Longrightarrow>
   \<exists>hnew new c. h' = h @ hnew \<and> events w' = events w @ new
     \<and> sessions None new = Some (map (\<lambda>r. output_file out (fst r)) hnew, c)
     \<and> (res = Ended \<or> res = Blocked \<longrightarrow> c = None)"
proof (induction picks arbitrary: typed subs h w)
  case Nil
  then show ?case by (auto split: if_splits)
next
  case (Cons i picks)
  show ?case
  proof (cases "length subs > 0")
    case False
    with Cons.prems show ?thesis by auto
  next
    case True
    show ?thesis
    proof (cases "py_index subs i")
      case (Inl err)
      with Cons.prems True have "res = Raised err" "h' = h" "w' = w" by simp_all
      then show ?thesis
        by (intro exI[of _ "[]"] exI[of _ "[]"] exI[of _ None]) simp
    next
      case (Inr s)
      let ?f = "output_file out s"
      let ?w1 = "emit (OpenStream ?f (Some True)) w"
      obtain r w2 where run:
        "run_individual_submission env (path_join sp s) (child entries s) ?f ?w1 = (r, w2)"
        by (cases "run_individual_submission env (path_join sp s) (child entries s) ?f ?w1")
      have q: "quiet ?w1 w2"
        using quiet_run_individual_submission[of ?w1 env "path_join sp s" "child entries s" ?f]
          run by simp
      show ?thesis
      proof (cases r)
        case (Inl err)
        with Cons.prems True Inr run have res: "res = Raised err" "h' = h" "w' = w2"
          by (simp_all add: StreamHandler_def)
        from session_open[OF q] obtain new where
          "events w2 = events w @ new" "sessions None new = Some ([], Some ?f)"
          by blast
        with res show ?thesis
          by (intro exI[of _ "[]"] exI[of _ new] exI[of _ "Some ?f"]) simp
      next
        case status: (Inr status)
        show ?thesis
        proof (cases "value_nonzero status")
          case False
          with Cons.prems(1) True Inr run status
          have "retry_loop env sp entries out picks typed (remove1 s subs)
                  (h @ [(s, status, None)]) (close ?f w2) = (res, subs', h', w')"
            by (simp add: StreamHandler_def)
          from Cons.IH[OF this] obtain hnew new c where
            h: "h' = (h @ [(s, status, None)]) @ hnew"
            and ev: "events w' = events (close ?f w2) @ new"
            "sessions None new = Some (map (\<lambda>r. output_file out (fst r)) hnew, c)"
            and fin: "res = Ended \<or> res = Blocked \<longrightarrow> c = None"
            by blast
          from session_closed[OF q ev] obtain new' where
            "events w' = events w @ new'"
            "sessions None new' = Some (?f # map (\<lambda>r. output_file out (fst r)) hnew, c)"
            by blast
          with h fin show ?thesis
            by (intro exI[of _ "(s, status, None) # hnew"] exI[of _ new'] exI[of _ c]) simp
        next
          case nz: True
          show ?thesis
          proof (cases typed)
            case Nil
            with Cons.prems(1) True Inr run status nz
            have res: "res = Blocked" "h' = h @ [(s, status, None)]" "w' = close ?f w2"
              by (simp_all add: StreamHandler_def)
            from session_closed_last[OF q] obtain new' where
              "events (close ?f w2) = events w @ new'" "sessions None new' = Some ([?f], None)"
              by blast
            with res show ?thesis
              by (intro exI[of _ "[(s, status, None)]"] exI[of _ new'] exI[of _ None]) simp
          next
            case (Cons line typed')
            with Cons.prems(1) True Inr run status nz
            have "retry_loop env sp entries out picks typed'
                    (if lower line = ''r'' then remove1 s subs else subs)
                    (h @ [(s, status, Some (lower line))]) (close ?f w2) = (res, subs', h', w')"
              by (simp add: StreamHandler_def)
            from Cons.IH[OF this] obtain hnew new c where
              h: "h' = (h @ [(s, status, Some (lower line))]) @ hnew"
              and ev: "events w' = events (close ?f w2) @ new"
              "sessions None new = Some (map (\<lambda>r. output_file out (fst r)) hnew, c)"
              and fin: "res = Ended \<or> res = Blocked \<longrightarrow> c = None"
              by blast
            from session_closed[OF q ev] obtain new' where
              "events w' = events w @ new'"
              "sessions None new' = Some (?f # map (\<lambda>r. output_file out (fst r)) hnew, c)"
              by blast
            with h fin show ?thesis
              by (intro exI[of _ "(s, status, Some (lower line)) # hnew"] exI[of _ new']
                  exI[of _ c]) simp
          qed
        qed
      qed
    qed
  qed
qed

lemma pending_Nil: "pending [] s"
  by (simp add: pending_def last_status_def operator_removed_def)

lemma pending_snoc:
  "pending (h @ [(s, status, decision)]) x =
     (if x = s then status \<noteq> OK \<and> decision \<noteq> Some ''r'' \<and> \<not> operator_removed h s
      else pending h x)"
  by (auto simp: pending_def last_status_def operator_removed_def)

lemma py_index_mem: "py_index xs i = Inr x \<Longrightarrow> x \<in> set xs"
  by (auto simp: py_index_def split: if_splits)

lemma filter_remove1:
  assumes "distinct xs"
  shows "remove1 s (filter P xs) = filter (\<lambda>x. P x \<and> x \<noteq> s) xs"
  using assms
proof (induction xs)
  case Nil
  then show ?case by simp
next
  case (Cons a xs)
  then have "a \<notin> set xs" by simp
  then have "filter (\<lambda>x. P x \<and> x \<noteq> a) xs = filter P xs"
    by (induction xs) auto
  with Cons show ?case by auto
qed

lemma retry_step_kept:
  assumes d: "distinct ledger" and inv: "subs = filter (pending h) ledger" and s: "s \<in> set subs"
  shows "(if status = OK \<or> decision = Some ''r'' then remove1 s subs else subs) =
           filter (pending (h @ [(s, status, decision)])) ledger"
proof -
  from s inv have p: "pending h s" by simp
  then have nr: "\<not> operator_removed h s" by (simp add: pending_def)
  show ?thesis
  proof (cases "status = OK \<or> decision = Some ''r''")
    case True
    then have "filter (pending (h @ [(s, status, decision)])) ledger =
        filter (\<lambda>x. pending h x \<and> x \<noteq> s) ledger"
      by (intro filter_cong) (auto simp: pending_snoc)
    with True inv filter_remove1[OF d, of s "pending h"] show ?thesis by simp
  next
    case False
    then have "filter (pending (h @ [(s, status, decision)])) ledger = filter (pending h) ledger"
      using p nr by (intro filter_cong) (auto simp: pending_snoc)
    with False inv show ?thesis by simp
  qed
qed

lemma retry_loop_invariant:
  assumes d: "distinct ledger"
  shows "subs = filter (pending h) ledger \<Longrightarrow>
    retry_loop env sp entries out picks typed subs h w = (res, subs', h', w') \<Longrightarrow>
    subs' = filter (pending h') ledger \<and> (res = Ended) = (subs' = [])"
proof (induction picks arbitrary: typed subs h w)
  case Nil
  then show ?case by (auto split: if_splits)
next
  case (Cons i picks)
  show ?case
  proof (cases "length subs > 0")
    case False
    with Cons.prems show ?thesis by auto
  next
    case True
    show ?thesis
    proof (cases "py_index subs i")
      case (Inl err)
      with Cons.prems True show ?thesis by auto
    next
      case (Inr s)
      then have s: "s \<in> set subs" by (rule py_index_mem)
      let ?f = "output_file out s"
      let ?w1 = "emit (OpenStream ?f (Some True)) w"
      obtain r w2 where run:
        "run_individual_submission env (path_join sp s) (child entries s) ?f ?w1 = (r, w2)"
        by (cases "run_individual_submission env (path_join sp s) (child entries s) ?f ?w1")
      show ?thesis
      proof (cases r)
        case (Inl err)
        with Cons.prems True Inr run show ?thesis by (auto simp: StreamHandler_def)
      next
        case status: (Inr status)
        show ?thesis
        proof (cases "value_nonzero status")
          case False
          then have ok: "status = OK" by (simp add: value_nonzero_def)
          from Cons.prems(2) True Inr run status False
          have loop: "retry_loop env sp entries out picks typed (remove1 s subs)
                  (h @ [(s, status, None)]) (close ?f w2) = (res, subs', h', w')"
            by (simp add: StreamHandler_def)
          have "remove1 s subs = filter (pending (h @ [(s, status, None)])) ledger"
            using retry_step_kept[OF d Cons.prems(1) s, of status None] ok by simp
          from Cons.IH[OF this loop] show ?thesis .
        next
          case nz: True
          then have nok: "status \<noteq> OK" by (simp add: value_nonzero_def)
          show ?thesis
          proof (cases typed)
            case Nil
            with Cons.prems(2) True Inr run status nz
            have res: "res = Blocked" "subs' = subs" "h' = h @ [(s, status, None)]"
              by (simp_all add: StreamHandler_def)
            have "subs = filter (pending (h @ [(s, status, None)])) ledger"
              using retry_step_kept[OF d Cons.prems(1) s, of status None] nok by simp
            with res True show ?thesis by auto
          next
            case (Cons line typed')
            with Cons.prems(2) True Inr run status nz
            have loop: "retry_loop env sp entries out picks typed'
                    (if lower line = ''r'' then remove1 s subs else subs)
                    (h @ [(s, status, Some (lower line))]) (close ?f w2) = (res, subs', h', w')"
              by (simp add: StreamHandler_def)
            have "(if lower line = ''r'' then remove1 s subs else subs) =
                filter (pending (h @ [(s, status, Some (lower line))])) ledger"
              using retry_step_kept[OF d Cons.prems(1) s, of status "Some (lower line)"] nok
              by simp
            from Cons.IH[OF this loop] show ?thesis .
          qed
        qed
      qed
    qed
  qed
qed

lemma retry_loop_automatic:
  "retry_loop env sp entries out picks typed subs h w = (res, subs', h', w') \<Longrightarrow>
   list_all (\<lambda>r. fst (snd r) = OK \<longrightarrow> snd (snd r) = None) h \<Longrightarrow>
   list_all (\<lambda>r. fst (snd r) = OK \<longrightarrow> snd (snd r) = None) h'"
proof (induction picks arbitrary: typed subs h w)
  case Nil
  then show ?case by (auto split: if_splits)
next
  case (Cons i picks)
  show ?case
  proof (cases "length subs > 0")
    case False
    with Cons.prems show ?thesis by auto
  next
    case True
    show ?thesis
    proof (cases "py_index subs i")
      case (Inl err)
      with Cons.prems True show ?thesis by auto
    next
      case (Inr s)
      let ?f = "output_file out s"
      let ?w1 = "emit (OpenStream ?f (Some True)) w"
      obtain r w2 where run:
        "run_individual_submission env (path_join sp s) (child entries s) ?f ?w1 = (r, w2)"
        by (cases "run_individual_submission env (path_join sp s) (child entries s) ?f ?w1")
      show ?thesis
      proof (cases r)
        case (Inl err)
        with Cons.prems True Inr run show ?thesis by (auto simp: StreamHandler_def)
      next
        case status: (Inr status)
        show ?thesis
        proof (cases "value_nonzero status")
          case False
          from Cons.prems(1) True Inr run status False
          have loop: "retry_loop env sp entries out picks typed (remove1 s subs)
                  (h @ [(s, status, None)]) (close ?f w2) = (res, subs', h', w')"
            by (simp add: StreamHandler_def)
          from Cons.IH[OF loop] Cons.prems(2) show ?thesis by simp
        next
          case nz: True
          then have nok: "status \<noteq> OK" by (simp add: value_nonzero_def)
          show ?thesis
          proof (cases typed)
            case Nil
            with Cons.prems(1) True Inr run status nz
            have "h' = h @ [(s, status, None)]"
              by (simp_all add: StreamHandler_def)
            with Cons.prems(2) show ?thesis by simp
          next
            case (Cons line typed')
            with Cons.prems(1) True Inr run status nz
            have loop: "retry_loop env sp entries out picks typed'
                    (if lower line = ''r'' then remove1 s subs else subs)
                    (h @ [(s, status, Some (lower line))]) (close ?f w2) = (res, subs', h', w')"
              by (simp add: StreamHandler_def)
            from Cons.IH[OF loop] Cons.prems(2) nok show ?thesis by simp
          qed
        qed
      qed
    qed
  qed
qed

text \<open>
  C7. The retry loop works on the list of the ledger's keys. A selected submission whose
  classification is \<open>OK\<close> is removed without the operator being asked; with any other
  status it is removed when the operator answers \<open>r\<close> (in either case) and stays
  otherwise. However the loop is left, the list holds exactly the keys of the ledger whose
  most recent classification in the loop, if any, was not \<open>OK\<close> and which the operator
  did not remove, and the loop has ended by itself exactly when the list is empty.
\<close>

theorem retry_ledger_invariant:
  assumes "distinct (map fst retry_dict)"
    and "retry_marking env submission_path entries retry_dict output_destination picks typed w =
           (res, remaining, history, w')"
  shows "remaining =
           [s \<leftarrow> map fst retry_dict.
              last_status history s \<noteq> Some OK \<and> \<not> operator_removed history s]
       \<and> (res = Ended) = (remaining = [])
       \<and> list_all (\<lambda>r. fst (snd r) = OK \<longrightarrow> snd (snd r) = None) history"
proof -
  have start: "map fst retry_dict = filter (pending []) (map fst retry_dict)"
    by (simp add: pending_Nil)
  have unfold: "pending history =
      (\<lambda>s. last_status history s \<noteq> Some OK \<and> \<not> operator_removed history s)"
    by (rule ext) (simp add: pending_def)
  from retry_loop_invariant[OF assms(1) start assms(2)[unfolded retry_marking_def]]
    retry_loop_automatic[OF assms(2)[unfolded retry_marking_def]]
  show ?thesis by (simp add: unfold)
qed

lemma find_nothing: "find_file p (Dir []) ''PingClient'' = Inr None"
  by (simp add: find_file.simps)

lemma find_PingClient_c:
  "find_file p (Dir [(''PingClient.c'', File)]) ''PingClient'' =
     Inr (Some \<lparr>folder_path = p, ext = ''.c'', language = ''C''\<rparr>)"
  by (simp add: find_file.simps splitext_PingClient_c lang_map_def)

lemma classify_nothing:
  "run_individual_submission env p (Dir []) f w =
     (Inr FILE_NOT_FOUND, emit (WriteMessage f ''File not found'' (Some True)) w)"
  by (simp add: run_individual_submission_def find_nothing write_message_def)

lemma classify_c:
  "run_individual_submission env p (Dir [(''PingClient.c'', File)]) f w =
     (Inr OK, emit (WriteMessage f ''Code implemented in C, Please check manually!'' None) w)"
  by (simp add: run_individual_submission_def find_PingClient_c run_lab_2_code_def
      write_message_def)

lemma classify_file:
  "run_individual_submission env p File f w = (Inl NotADirectoryError, w)"
  by (simp add: run_individual_submission_def find_file.simps)

text \<open>
  C5 (amended). In automatic, manual and retry mode the output stream of a submission is
  closed exactly once, right after its classification, whenever that classification
  returns an outcome (\<open>OK\<close> or a failure status), whatever happens to the submissions
  after it. However a loop is left, its effects form one closed session per submission
  whose classification returned, in order, with the classification's effects between the
  opening and the close of its stream; a stream is left open at the end only when an
  exception left the loop, and it is the stream of the submission the loop was at.
\<close>

theorem stream_closed_after_each_classification:
  "(auto_loop env get_description class_path output_destination entries failed_processes w =
      (r, w1)
    \<longrightarrow> (\<exists>new classified rest c.
          [e \<leftarrow> entries. \<not> startswith (fst e) ''.''] = classified @ rest
          \<and> events w1 = events w @ new
          \<and> sessions None new =
              Some (map (\<lambda>e. output_file output_destination (fst e)) classified, c)
          \<and> (case r of
                Inr ledger \<Rightarrow> rest = [] \<and> c = None
              | Inl err \<Rightarrow>
                  rest \<noteq> [] \<and> c = Some (output_file output_destination (fst (hd rest))))))
   \<and> (manual_loop env class_path output_destination class_submissions picks w = (res, w2)
    \<longrightarrow> (\<exists>new served rest c.
          picks = served @ rest
          \<and> events w2 = events w @ new
          \<and> sessions None new =
              Some (concat (map (\<lambda>i. case py_index class_submissions i of
                                        Inr (submission, tree) \<Rightarrow>
                                          [output_file output_destination submission]
                                      | Inl err \<Rightarrow> []) served), c)
          \<and> (res = Blocked \<longrightarrow> rest = [] \<and> c = None)
          \<and> (c \<noteq> None \<longrightarrow> (\<exists>err. res = Raised err))))
   \<and> (retry_marking env class_path entries retry_dict output_destination picks typed w =
        (res', remaining, history, w3)
    \<longrightarrow> (\<exists>new c.
          events w3 = events w @ new
          \<and> sessions None new =
              Some (map (\<lambda>r. output_file output_destination (fst r)) history, c)
          \<and> (res' = Ended \<or> res' = Blocked \<longrightarrow> c = None)))"
proof (intro conjI impI)
  assume "auto_loop env get_description class_path output_destination entries
            failed_processes w = (r, w1)"
  from auto_loop_streams[OF this]
  show "\<exists>new classified rest c.
          [e \<leftarrow> entries. \<not> startswith (fst e) ''.''] = classified @ rest
          \<and> events w1 = events w @ new
          \<and> sessions None new =
              Some (map (\<lambda>e. output_file output_destination (fst e)) classified, c)
          \<and> (case r of
                Inr ledger \<Rightarrow> rest = [] \<and> c = None
              | Inl err \<Rightarrow>
                  rest \<noteq> [] \<and> c = Some (output_file output_destination (fst (hd rest))))" .
next
  assume "manual_loop env class_path output_destination class_submissions picks w = (res, w2)"
  from manual_loop_streams[OF this]
  show "\<exists>new served rest c.
          picks = served @ rest
          \<and> events w2 = events w @ new
          \<and> sessions None new =
              Some (concat (map (\<lambda>i. case py_index class_submissions i of
                                        Inr (submission, tree) \<Rightarrow>
                                          [output_file output_destination submission]
                                      | Inl err \<Rightarrow> []) served), c)
          \<and> (res = Blocked \<longrightarrow> rest = [] \<and> c = None)
          \<and> (c \<noteq> None \<longrightarrow> (\<exists>err. res = Raised err))" .
next
  assume "retry_marking env class_path entries retry_dict output_destination picks typed w =
        (res', remaining, history, w3)"
  from retry_loop_streams[OF this[unfolded retry_marking_def]]
  show "\<exists>new c.
          events w3 = events w @ new
          \<and> sessions None new =
              Some (map (\<lambda>r. output_file output_destination (fst r)) history, c)
          \<and> (res' = Ended \<or> res' = Blocked \<longrightarrow> c = None)"
    by auto
qed

theorem stream_closed_after_each_classification_witness:
  "auto_loop (\<lambda>k. steady) describe ''cls'' ''out''
     [(''z1'', Dir []), (''notes.txt'', File)] [] world0 =
     (Inl NotADirectoryError,
      \<lparr>now = 0,
       log = [(0, OpenStream ''out/z1_output.txt'' None),
              (0, WriteMessage ''out/z1_output.txt'' ''File not found'' (Some True)),
              (0, CloseStream ''out/z1_output.txt''),
              (0, OpenStream ''out/notes.txt_output.txt'' None)],
       spawned = 0\<rparr>)
   \<and> sessions None
        [OpenStream ''out/z1_output.txt'' None,
         WriteMessage ''out/z1_output.txt'' ''File not found'' (Some True),
         CloseStream ''out/z1_output.txt'',
         OpenStream ''out/notes.txt_output.txt'' None] =
       Some ([''out/z1_output.txt''], Some ''out/notes.txt_output.txt'')
   \<and> manual_loop (\<lambda>k. steady) ''cls'' ''out'' [(''z1'', Dir []), (''notes.txt'', File)] [0]
       world0 =
     (Blocked, after_z1 (Some True))
   \<and> retry_marking (\<lambda>k. steady) ''cls'' [(''z1'', Dir []), (''notes.txt'', File)]
       [(''z1'', ''file not found'')] ''out'' [0] [''c''] world0 =
     (Blocked, [''z1''], [(''z1'', FILE_NOT_FOUND, Some ''c'')], after_z1 (Some True))
   \<and> sessions None (events (after_z1 (Some True))) = Some ([''out/z1_output.txt''], None)"
proof -
  have a: "auto_loop (\<lambda>k. steady) describe ''cls'' ''out''
     [(''z1'', Dir []), (''notes.txt'', File)] [] world0 =
     (Inl NotADirectoryError,
      \<lparr>now = 0,
       log = [(0, OpenStream ''out/z1_output.txt'' None),
              (0, WriteMessage ''out/z1_output.txt'' ''File not found'' (Some True)),
              (0, CloseStream ''out/z1_output.txt''),
              (0, OpenStream ''out/notes.txt_output.txt'' None)],
       spawned = 0\<rparr>)"
    by (simp add: startswith_def StreamHandler_def output_file_def classify_nothing
        classify_file close_def value_nonzero_def dict_set_def describe_def)
       (simp add: emit_def world0_def)
  have m: "manual_loop (\<lambda>k. steady) ''cls'' ''out'' [(''z1'', Dir []), (''notes.txt'', File)]
       [0] world0 = (Blocked, after_z1 (Some True))"
    by (simp add: py_index_def StreamHandler_def output_file_def classify_nothing close_def)
       (simp add: emit_def world0_def after_z1_def)
  have r: "retry_marking (\<lambda>k. steady) ''cls'' [(''z1'', Dir []), (''notes.txt'', File)]
       [(''z1'', ''file not found'')] ''out'' [0] [''c''] world0 =
     (Blocked, [''z1''], [(''z1'', FILE_NOT_FOUND, Some ''c'')], after_z1 (Some True))"
    by (simp add: retry_marking_def py_index_def StreamHandler_def output_file_def child_def
        classify_nothing close_def value_nonzero_def lower_def lower_char_def)
       (simp add: emit_def world0_def after_z1_def)
  show ?thesis
    using stream_closed_after_each_classification[where env = "\<lambda>k. steady"
        and get_description = describe and class_path = "''cls''"
        and output_destination = "''out''"
        and entries = "[(''z1'', Dir []), (''notes.txt'', File)]"
        and failed_processes = "[]" and w = world0 and r = "Inl NotADirectoryError"
        and class_submissions = "[(''z1'', Dir []), (''notes.txt'', File)]"
        and picks = "[0]" and res = Blocked and ?w2.0 = "after_z1 (Some True)"
        and retry_dict = "[(''z1'', ''file not found'')]" and typed = "[''c'']"
        and res' = Blocked and remaining = "[''z1'']"
        and history = "[(''z1'', FILE_NOT_FOUND, Some ''c'')]"
        and ?w3.0 = "after_z1 (Some True)"]
      a m r
    by (simp add: after_z1_def events_def)
qed

text \<open>
  C5 as stated, exceptions included, fails: the close is the statement after the
  classification and there is no \<^verbatim>\<open>finally\<close>. A regular file among the entries of the
  class directory makes \<^verbatim>\<open>os.listdir\<close> raise in \<^verbatim>\<open>find_file\<close>; the stream opened
  for it is never closed.
\<close>

theorem stream_left_open_counterexample:
  "mark_submissions_auto (\<lambda>k. steady) describe ''cls'' (Dir [(''notes.txt'', File)]) ''out''
     [] [] world0 =
     (Raised NotADirectoryError, [],
      \<lparr>now = 0, log = [(0, OpenStream ''out/notes.txt_output.txt'' None)], spawned = 0\<rparr>)
   \<and> length [e \<leftarrow> events (snd (snd (mark_submissions_auto (\<lambda>k. steady) describe ''cls''
                                      (Dir [(''notes.txt'', File)]) ''out'' [] [] world0))).
               e = CloseStream ''out/notes.txt_output.txt''] = 0"
proof -
  have run: "mark_submissions_auto (\<lambda>k. steady) describe ''cls'' (Dir [(''notes.txt'', File)])
       ''out'' [] [] world0 =
     (Raised NotADirectoryError, [],
      \<lparr>now = 0, log = [(0, OpenStream ''out/notes.txt_output.txt'' None)], spawned = 0\<rparr>)"
    by (simp add: mark_submissions_auto_def startswith_def StreamHandler_def output_file_def
        classify_file)
       (simp add: emit_def world0_def)
  show ?thesis unfolding run by (simp add: events_def)
qed

theorem retry_ledger_invariant_witness:
  "distinct (map fst [(''z1'', ''timeout''), (''z2'', ''file not found''),
                      (''z3'', ''file not found'')])
   \<and> fst (retry_marking (\<lambda>k. steady) ''cls'' retry_sample
            [(''z1'', ''timeout''), (''z2'', ''file not found''), (''z3'', ''file not found'')]
            ''out'' [0, 0, 0] [''R'', ''c''] world0) = Blocked
   \<and> fst (snd (retry_marking (\<lambda>k. steady) ''cls'' retry_sample
            [(''z1'', ''timeout''), (''z2'', ''file not found''), (''z3'', ''file not found'')]
            ''out'' [0, 0, 0] [''R'', ''c''] world0)) = [''z3'']
   \<and> fst (snd (snd (retry_marking (\<lambda>k. steady) ''cls'' retry_sample
            [(''z1'', ''timeout''), (''z2'', ''file not found''), (''z3'', ''file not found'')]
            ''out'' [0, 0, 0] [''R'', ''c''] world0))) =
       [(''z1'', OK, None), (''z2'', FILE_NOT_FOUND, Some ''r''),
        (''z3'', FILE_NOT_FOUND, Some ''c'')]
   \<and> [''z3''] =
       [s \<leftarrow> [''z1'', ''z2'', ''z3''].
          last_status [(''z1'', OK, None), (''z2'', FILE_NOT_FOUND, Some ''r''),
                       (''z3'', FILE_NOT_FOUND, Some ''c'')] s \<noteq> Some OK
          \<and> \<not> operator_removed [(''z1'', OK, None), (''z2'', FILE_NOT_FOUND, Some ''r''),
                                 (''z3'', FILE_NOT_FOUND, Some ''c'')] s]"
proof -
  obtain w' where run: "retry_marking (\<lambda>k. steady) ''cls'' retry_sample
            [(''z1'', ''timeout''), (''z2'', ''file not found''), (''z3'', ''file not found'')]
            ''out'' [0, 0, 0] [''R'', ''c''] world0 =
       (Blocked, [''z3''],
        [(''z1'', OK, None), (''z2'', FILE_NOT_FOUND, Some ''r''),
         (''z3'', FILE_NOT_FOUND, Some ''c'')], w')"
    by (simp add: retry_marking_def retry_sample_def py_index_def StreamHandler_def child_def
        classify_nothing classify_c value_nonzero_def lower_def lower_char_def)
  have d: "distinct (map fst [(''z1'', ''timeout''), (''z2'', ''file not found''),
                      (''z3'', ''file not found'')])"
    by simp
  from retry_ledger_invariant[OF d run] run d show ?thesis by simp
qed

end
